theory Spec2Isabelle
  imports Complex_Main "HOL-Library.Word" "HOL-Library.Sublist"
begin

section \<open>Generation controller (llama\_jni.cpp)\<close>

text \<open>
  The four globals of the wrapper (\<^verbatim>\<open>g_model\<close>, \<^verbatim>\<open>g_ctx\<close>, \<^verbatim>\<open>g_sampler\<close>,
  \<^verbatim>\<open>g_n_past\<close>) form the state; every JNI entry point takes the state and returns
  the new one. A null pointer is \<open>None\<close>. The model and context objects belong to the
  llama library, so their types are parameters (\<open>'m\<close>, \<open>'c\<close>) and the library functions
  the wrapper calls are the fields of the record \<open>llama_api\<close>.

  \<^verbatim>\<open>int32_t\<close> values that the code only copies or compares are given by their
  integer value (\<open>int\<close>); \<^verbatim>\<open>g_n_past\<close> and the positions computed from it are the
  only values that are added up across calls, and are 32-bit words (\<open>+\<close> wraps around,
  \<open>sint\<close> reads the signed value). A Java array is the list of its elements; its length
  is below \<open>2 ^ 31\<close>, so it is the same number as an \<^verbatim>\<open>int32_t\<close>.
\<close>

type_synonym int32 = "32 word"

type_synonym llama_token = int

type_synonym llama_pos = int32

subsection \<open>Sampler chains\<close>

text \<open>
  A \<^verbatim>\<open>jfloat\<close> is a finite number, an infinity or NaN; \<open>jfloat_less\<close> is the
  comparison \<^verbatim>\<open><\<close> of the language (false as soon as one side is NaN). A literal such
  as \<^verbatim>\<open>0.9f\<close> is represented by the decimal it is written as.
\<close>

datatype jfloat = Finite real | PlusInf | MinusInf | NaN

fun jfloat_less :: "jfloat \<Rightarrow> jfloat \<Rightarrow> bool" where
  "jfloat_less NaN _ = False"
| "jfloat_less _ NaN = False"
| "jfloat_less (Finite x) (Finite y) = (x < y)"
| "jfloat_less (Finite x) PlusInf = True"
| "jfloat_less (Finite x) MinusInf = False"
| "jfloat_less PlusInf _ = False"
| "jfloat_less MinusInf MinusInf = False"
| "jfloat_less MinusInf _ = True"

text \<open>
  One constructor for each \<^verbatim>\<open>llama_sampler_init_*\<close> the wrapper uses, with the
  arguments it passes. A chain is the list of the stages added to it, in order. The
  wrapper does not test what \<^verbatim>\<open>llama_sampler_chain_init\<close> and the stage constructors
  return: they are taken to return an object always.
\<close>

datatype sampler_stage =
    Top_k int
  | Top_p jfloat nat
  | Temp jfloat
  | Dist nat
  | Greedy

type_synonym llama_sampler = "sampler_stage list"

definition llama_sampler_chain_init :: llama_sampler where
  "llama_sampler_chain_init = []"

definition llama_sampler_chain_add :: "llama_sampler \<Rightarrow> sampler_stage \<Rightarrow> llama_sampler" where
  "llama_sampler_chain_add chain smpl = chain @ [smpl]"

subsection \<open>State, batches and the library interface\<close>

record ('m, 'c) gen_state =
  g_model :: "'m option"
  g_ctx :: "'c option"
  g_sampler :: "llama_sampler option"
  g_n_past :: int32

record llama_batch =
  n_tokens :: int
  token :: "llama_token list"
  pos :: "llama_pos list"
  n_seq_id :: "int list"
  seq_id :: "int list list"
  logits :: "int list"

record llama_model_params =
  n_gpu_layers :: int
  use_mmap :: bool
  use_mlock :: bool

datatype flash_attn_type = LLAMA_FLASH_ATTN_TYPE_DISABLED | LLAMA_FLASH_ATTN_TYPE_DEFAULT

text \<open>
  The fields of \<^verbatim>\<open>llama_context_params\<close> that \<^verbatim>\<open>loadModel\<close> sets (prefixed with
  \<open>p_\<close>, since \<open>n_batch\<close> is also a local variable of the decode loop). The three
  sizes are \<^verbatim>\<open>uint32_t\<close> fields: assigning the \<^verbatim>\<open>jint\<close> \<open>contextSize\<close> to
  \<^verbatim>\<open>n_ctx\<close> converts it modulo \<open>2 ^ 32\<close>, so that -1 reaches the library as
  4294967295.
\<close>

record llama_context_params =
  p_n_ctx :: "32 word"
  p_n_batch :: "32 word"
  p_n_ubatch :: "32 word"
  p_n_threads :: int
  p_n_threads_batch :: int
  p_flash_attn_type :: flash_attn_type

text \<open>
  The functions of \<^verbatim>\<open>llama.h\<close> the wrapper calls and whose result it uses.
  \<open>llama_decode\<close> returns the status and the context after the evaluation.
  \<open>llama_get_memory\<close> says whether the context has a memory (a non-null handle) and
  \<open>llama_memory_clear\<close> is the context after its memory has been cleared.
  \<open>llama_token_to_piece\<close> gets the size of the buffer and returns the reported length
  with the content of the buffer afterwards.
\<close>

record ('m, 'c) llama_api =
  llama_model_load_from_file :: "string \<Rightarrow> llama_model_params \<Rightarrow> 'm option"
  llama_init_from_model :: "'m \<Rightarrow> llama_context_params \<Rightarrow> 'c option"
  llama_n_batch :: "'c \<Rightarrow> 32 word"
  llama_decode :: "'c \<Rightarrow> llama_batch \<Rightarrow> int \<times> 'c"
  llama_get_memory :: "'c \<Rightarrow> bool"
  llama_memory_clear :: "'c \<Rightarrow> 'c"
  llama_token_to_piece :: "'m \<Rightarrow> llama_token \<Rightarrow> nat \<Rightarrow> int \<times> 8 word list"

text \<open>
  The calls that create or destroy a handle, in the order the wrapper makes them. The
  code keeps no such list; the entry points below return it beside the new state so that
  the order of a teardown can be stated.
\<close>

datatype ('m, 'c) llama_call =
    Llama_sampler_free llama_sampler
  | Llama_free 'c
  | Llama_model_free 'm
  | Llama_model_load_from_file string llama_model_params
  | Llama_init_from_model 'm llama_context_params

subsection \<open>Batched decode\<close>

text \<open>
  The \<^verbatim>\<open>for\<close> loop of \<^verbatim>\<open>decode_tokens_internal\<close>, from index \<open>i\<close> on. The
  arrays of a batch are the lists of the entries written so far: \<^verbatim>\<open>llama_batch_init\<close>
  allocates \<open>n_eval\<close> entries for each without writing them, and the loop writes the
  entries in order, one of each array per round.
\<close>

function fill_batch ::
  "llama_token list \<Rightarrow> int \<Rightarrow> int32 \<Rightarrow> int \<Rightarrow> nat \<Rightarrow> llama_batch \<Rightarrow> llama_batch"
where
  "fill_batch tokens offset n_past n_eval i batch =
     (if int i < n_eval then
        fill_batch tokens offset n_past n_eval (Suc i)
          (batch\<lparr> token := token batch @ [tokens ! nat (offset + int i)],
                  pos := pos batch @ [n_past + word_of_nat i],
                  n_seq_id := n_seq_id batch @ [1],
                  seq_id := seq_id batch @ [[0]],
                  logits := logits batch @ [0] \<rparr>)
      else batch)"
  by pat_completeness auto
termination
  by (relation "measure (\<lambda>(tokens, offset, n_past, n_eval, i, batch). nat n_eval - i)") auto

declare fill_batch.simps [simp del]

text \<open>
  The body of the \<^verbatim>\<open>while\<close> loop up to the call of \<^verbatim>\<open>llama_decode\<close>: the batch of
  \<open>n_eval\<close> tokens starting at \<open>offset\<close>. After the \<^verbatim>\<open>for\<close> loop the logits flag of
  the last entry is set when the chunk ends the sequence.
\<close>

definition make_batch :: "llama_token list \<Rightarrow> int \<Rightarrow> int32 \<Rightarrow> int \<Rightarrow> llama_batch" where
  "make_batch tokens offset n_past n_eval =
     (let batch0 = \<lparr> n_tokens = n_eval, token = [], pos = [], n_seq_id = [], seq_id = [],
                      logits = [] \<rparr>;
          batch = fill_batch tokens offset n_past n_eval 0 batch0
      in if offset + n_eval = int (length tokens)
         then batch\<lparr>logits := (logits batch)[nat (n_eval - 1) := 1]\<rparr>
         else batch)"

text \<open>
  The loop itself. It has no bound of its own: with a batch width of 0 and an evaluation
  that reports 0 it runs forever, so it is a partial function and not returning is
  \<open>None\<close>. Besides the status, the context and the cache position, it returns the list
  of the batches it has submitted, each with the status the evaluation reported
  (\<open>tr\<close>, which the code does not keep: it is here so that theorems can speak about the
  chunks).
\<close>

partial_function (option) decode_loop ::
  "('m, 'c) llama_api \<Rightarrow> llama_token list \<Rightarrow> int \<Rightarrow> int \<Rightarrow> 'c \<Rightarrow> int32 \<Rightarrow>
   (llama_batch \<times> int) list \<Rightarrow> (int \<times> 'c \<times> int32 \<times> (llama_batch \<times> int) list) option"
where
  "decode_loop api tokens n_batch offset c n_past tr =
     (if offset < int (length tokens) then
        (let n_eval = min n_batch (int (length tokens) - offset);
             batch = make_batch tokens offset n_past n_eval;
             r = llama_decode api c batch
         in if fst r \<noteq> 0 then Some (fst r, snd r, n_past, tr @ [(batch, fst r)])
            else decode_loop api tokens n_batch (offset + n_eval) (snd r)
                   (n_past + word_of_int n_eval) (tr @ [(batch, fst r)]))
      else Some (0, c, n_past, tr))"

definition decode_tokens_internal ::
  "('m, 'c) llama_api \<Rightarrow> ('m, 'c) gen_state \<Rightarrow> llama_token list \<Rightarrow>
   (int \<times> ('m, 'c) gen_state \<times> (llama_batch \<times> int) list) option"
where
  "decode_tokens_internal api s tokens =
     (case g_ctx s of
        None \<Rightarrow> Some (-1, s, [])
      | Some c \<Rightarrow>
          (case decode_loop api tokens (sint (llama_n_batch api c)) 0 c (g_n_past s) [] of
             None \<Rightarrow> None
           | Some (res, c', n_past', tr) \<Rightarrow>
               Some (res, s\<lparr>g_ctx := Some c', g_n_past := n_past'\<rparr>, tr)))"

text \<open>The JNI entry point \<^verbatim>\<open>decode\<close>.\<close>

definition decode ::
  "('m, 'c) llama_api \<Rightarrow> ('m, 'c) gen_state \<Rightarrow> llama_token list \<Rightarrow>
   (int \<times> ('m, 'c) gen_state \<times> (llama_batch \<times> int) list) option"
where
  "decode api s tokens =
     (if g_ctx s = None then Some (-1, s, [])
      else decode_tokens_internal api s tokens)"

declare decode_loop.simps [code]

subsection \<open>Loading and unloading\<close>

text \<open>The block \<^verbatim>\<open>if (g_model != nullptr) { ... }\<close> at the start of \<^verbatim>\<open>loadModel\<close>.\<close>

definition unload_existing ::
  "('m, 'c) gen_state \<Rightarrow> ('m, 'c) gen_state \<times> ('m, 'c) llama_call list" where
  "unload_existing s =
     (case g_model s of
        None \<Rightarrow> (s, [])
      | Some m \<Rightarrow>
          (s\<lparr>g_sampler := None, g_ctx := None, g_model := None, g_n_past := 0\<rparr>,
           (case g_sampler s of None \<Rightarrow> [] | Some smpl \<Rightarrow> [Llama_sampler_free smpl])
           @ (case g_ctx s of None \<Rightarrow> [] | Some c \<Rightarrow> [Llama_free c])
           @ [Llama_model_free m]))"

definition default_model_params :: llama_model_params where
  "default_model_params = \<lparr> n_gpu_layers = 0, use_mmap = True, use_mlock = False \<rparr>"

definition make_context_params :: "int \<Rightarrow> int \<Rightarrow> llama_context_params" where
  "make_context_params contextSize threads =
     \<lparr> p_n_ctx = word_of_int contextSize, p_n_batch = 512, p_n_ubatch = 512,
       p_n_threads = threads,
       p_n_threads_batch = threads, p_flash_attn_type = LLAMA_FLASH_ATTN_TYPE_DISABLED \<rparr>"

definition default_sampler :: llama_sampler where
  "default_sampler =
     llama_sampler_chain_add
       (llama_sampler_chain_add
         (llama_sampler_chain_add
           (llama_sampler_chain_add llama_sampler_chain_init (Top_k 40))
           (Top_p (Finite 0.9) 1))
         (Temp (Finite 0.7)))
       (Dist 42)"

definition loadModel ::
  "('m, 'c) llama_api \<Rightarrow> ('m, 'c) gen_state \<Rightarrow> string \<Rightarrow> int \<Rightarrow> int \<Rightarrow>
   bool \<times> ('m, 'c) gen_state \<times> ('m, 'c) llama_call list"
where
  "loadModel api s modelPath contextSize threads =
     (let (s1, calls1) = unload_existing s;
          s2 = s1\<lparr>g_model := llama_model_load_from_file api modelPath default_model_params\<rparr>;
          calls2 = calls1 @ [Llama_model_load_from_file modelPath default_model_params]
      in case g_model s2 of
           None \<Rightarrow> (False, s2, calls2)
         | Some m \<Rightarrow>
             (let ctx_params = make_context_params contextSize threads;
                  s3 = s2\<lparr>g_ctx := llama_init_from_model api m ctx_params\<rparr>;
                  calls3 = calls2 @ [Llama_init_from_model m ctx_params]
              in case g_ctx s3 of
                   None \<Rightarrow> (False, s3\<lparr>g_model := None\<rparr>, calls3 @ [Llama_model_free m])
                 | Some c \<Rightarrow>
                     (True, s3\<lparr>g_n_past := 0, g_sampler := Some default_sampler\<rparr>, calls3)))"

definition unloadModel ::
  "('m, 'c) gen_state \<Rightarrow> ('m, 'c) gen_state \<times> ('m, 'c) llama_call list" where
  "unloadModel s =
     (s\<lparr>g_sampler := None, g_ctx := None, g_model := None, g_n_past := 0\<rparr>,
      (case g_sampler s of None \<Rightarrow> [] | Some smpl \<Rightarrow> [Llama_sampler_free smpl])
      @ (case g_ctx s of None \<Rightarrow> [] | Some c \<Rightarrow> [Llama_free c])
      @ (case g_model s of None \<Rightarrow> [] | Some m \<Rightarrow> [Llama_model_free m]))"

definition isLoaded :: "('m, 'c) gen_state \<Rightarrow> bool" where
  "isLoaded s \<longleftrightarrow> g_model s \<noteq> None \<and> g_ctx s \<noteq> None"

subsection \<open>Sampler reconfiguration and cache reset\<close>

definition resetSampler ::
  "('m, 'c) gen_state \<Rightarrow> jfloat \<Rightarrow> jfloat \<Rightarrow> int \<Rightarrow>
   ('m, 'c) gen_state \<times> ('m, 'c) llama_call list"
where
  "resetSampler s temperature topP topK =
     (let calls = (case g_sampler s of None \<Rightarrow> [] | Some smpl \<Rightarrow> [Llama_sampler_free smpl]);
          chain0 = llama_sampler_chain_init;
          chain1 = (if topK > 0 then llama_sampler_chain_add chain0 (Top_k topK) else chain0);
          chain2 = (if jfloat_less topP (Finite 1)
                    then llama_sampler_chain_add chain1 (Top_p topP 1) else chain1);
          chain3 = (if jfloat_less (Finite 0) temperature
                    then llama_sampler_chain_add
                           (llama_sampler_chain_add chain2 (Temp temperature)) (Dist 42)
                    else llama_sampler_chain_add chain2 Greedy)
      in (s\<lparr>g_sampler := Some chain3\<rparr>, calls))"

definition clearContext :: "('m, 'c) llama_api \<Rightarrow> ('m, 'c) gen_state \<Rightarrow> ('m, 'c) gen_state" where
  "clearContext api s =
     (let s1 = (case g_ctx s of
                  None \<Rightarrow> s
                | Some c \<Rightarrow>
                    if llama_get_memory api c then s\<lparr>g_ctx := Some (llama_memory_clear api c)\<rparr>
                    else s)
      in s1\<lparr>g_n_past := 0\<rparr>)"

text \<open>
  The states the wrapper can be in: the initial values of the globals, and what the entry
  points that assign a global make of a reachable state (\<^verbatim>\<open>init\<close>, \<^verbatim>\<open>isLoaded\<close>,
  \<^verbatim>\<open>tokenize\<close>, \<^verbatim>\<open>sample\<close>, \<^verbatim>\<open>tokenToString\<close>, \<^verbatim>\<open>getEosToken\<close> and
  \<^verbatim>\<open>getContextSize\<close> assign none).
\<close>

definition initial_state :: "('m, 'c) gen_state" where
  "initial_state = \<lparr> g_model = None, g_ctx = None, g_sampler = None, g_n_past = 0 \<rparr>"

inductive reachable :: "('m, 'c) llama_api \<Rightarrow> ('m, 'c) gen_state \<Rightarrow> bool"
  for api :: "('m, 'c) llama_api"
where
  r_initial: "reachable api initial_state"
| r_loadModel: "reachable api s \<Longrightarrow> reachable api (fst (snd (loadModel api s modelPath contextSize threads)))"
| r_unloadModel: "reachable api s \<Longrightarrow> reachable api (fst (unloadModel s))"
| r_decode: "reachable api s \<Longrightarrow> decode api s tokens = Some (res, s', tr) \<Longrightarrow> reachable api s'"
| r_resetSampler: "reachable api s \<Longrightarrow> reachable api (fst (resetSampler s temperature topP topK))"
| r_clearContext: "reachable api s \<Longrightarrow> reachable api (clearContext api s)"

subsection \<open>Detokenization\<close>

text \<open>
  A Java string is given by the list of its Unicode code points. The JNI environment is a
  parameter: each field says whether the lookup or allocation of that name succeeds
  (returns a non-null handle); \<open>NewObject_String\<close> is the call of the constructor
  \<^verbatim>\<open>String(byte[], Charset)\<close> with the UTF-8 charset on the given bytes, returning
  the object (\<open>None\<close> for null) and whether an exception is pending afterwards.
  \<^verbatim>\<open>NewStringUTF("")\<close> is the empty string.
\<close>

type_synonym jstring = "nat list"

record jni_env =
  NewByteArray :: "int \<Rightarrow> bool"
  FindClass :: "string \<Rightarrow> bool"
  GetStaticFieldID :: "string \<Rightarrow> string \<Rightarrow> string \<Rightarrow> bool"
  GetStaticObjectField :: "string \<Rightarrow> string \<Rightarrow> bool"
  GetMethodID :: "string \<Rightarrow> string \<Rightarrow> string \<Rightarrow> bool"
  NewObject_String :: "8 word list \<Rightarrow> jstring option \<times> bool"

definition new_string_from_utf8_bytes :: "jni_env \<Rightarrow> 8 word list option \<Rightarrow> int \<Rightarrow> jstring" where
  "new_string_from_utf8_bytes env bytes len =
     (case bytes of
        None \<Rightarrow> []
      | Some bs \<Rightarrow>
          if len \<le> 0 then []
          else if \<not> NewByteArray env len then []
          else
            (let arr = take (nat len) bs
             in if \<not> FindClass env ''java/nio/charset/StandardCharsets'' then []
                else if \<not> GetStaticFieldID env ''java/nio/charset/StandardCharsets'' ''UTF_8''
                            ''Ljava/nio/charset/Charset;'' then []
                else if \<not> GetStaticObjectField env ''java/nio/charset/StandardCharsets'' ''UTF_8''
                  then []
                else if \<not> FindClass env ''java/lang/String'' then []
                else if \<not> GetMethodID env ''java/lang/String'' ''<init>''
                            ''([BLjava/nio/charset/Charset;)V'' then []
                else
                  (let (strObj, exception_pending) = NewObject_String env arr
                   in if exception_pending then []
                      else (case strObj of None \<Rightarrow> [] | Some out \<Rightarrow> out))))"

definition tokenToString ::
  "('m, 'c) llama_api \<Rightarrow> jni_env \<Rightarrow> ('m, 'c) gen_state \<Rightarrow> llama_token \<Rightarrow> jstring" where
  "tokenToString api env s tok =
     (case g_model s of
        None \<Rightarrow> []
      | Some m \<Rightarrow>
          (let (len, buf) = llama_token_to_piece api m tok 4096
           in if len < 0 then [] else new_string_from_utf8_bytes env (Some buf) len))"

text \<open>
  Modelled from the spec: the decoding done by the platform's constructor
  \<^verbatim>\<open>String(byte[], UTF_8)\<close>, which is not part of the repository. The spec says of
  it that the conversion tolerates invalid byte sequences by substituting the Unicode
  replacement character (U+FFFD) for malformed runs, rather than rejecting or aborting.
  The decoder works on the unsigned values of the bytes. \<open>utf8_step\<close> reads one unit
  at the lead byte \<open>b0\<close>: a well-formed sequence (one to four bytes, no overlong form, no
  surrogate, nothing above U+10FFFF) gives its code point; a byte that starts none,
  together with the bytes after it that a well-formed sequence could still have continued
  with, is a malformed run and gives \<open>None\<close>. The second component is the number of
  further bytes the unit covers.
\<close>

definition replacement_char :: nat where
  "replacement_char = 65533"

definition is_cont :: "nat \<Rightarrow> bool" where
  "is_cont b \<longleftrightarrow> 128 \<le> b \<and> b \<le> 191"

definition second_ok :: "nat \<Rightarrow> nat \<Rightarrow> bool" where
  "second_ok b0 b1 =
     (if b0 = 224 then 160 \<le> b1 \<and> b1 \<le> 191
      else if b0 = 237 then 128 \<le> b1 \<and> b1 \<le> 159
      else if b0 = 240 then 144 \<le> b1 \<and> b1 \<le> 191
      else if b0 = 244 then 128 \<le> b1 \<and> b1 \<le> 143
      else is_cont b1)"

definition utf8_step :: "nat \<Rightarrow> nat list \<Rightarrow> nat option \<times> nat" where
  "utf8_step b0 rest =
     (if b0 < 128 then (Some b0, 0)
      else if 194 \<le> b0 \<and> b0 \<le> 223 then
        (case rest of
           [] \<Rightarrow> (None, 0)
         | b1 # _ \<Rightarrow>
             if is_cont b1 then (Some ((b0 - 192) * 64 + (b1 - 128)), 1) else (None, 0))
      else if 224 \<le> b0 \<and> b0 \<le> 239 then
        (case rest of
           [] \<Rightarrow> (None, 0)
         | b1 # r1 \<Rightarrow>
             if \<not> second_ok b0 b1 then (None, 0)
             else (case r1 of
                     [] \<Rightarrow> (None, 1)
                   | b2 # _ \<Rightarrow>
                       if is_cont b2
                       then (Some ((b0 - 224) * 4096 + (b1 - 128) * 64 + (b2 - 128)), 2)
                       else (None, 1)))
      else if 240 \<le> b0 \<and> b0 \<le> 244 then
        (case rest of
           [] \<Rightarrow> (None, 0)
         | b1 # r1 \<Rightarrow>
             if \<not> second_ok b0 b1 then (None, 0)
             else (case r1 of
                     [] \<Rightarrow> (None, 1)
                   | b2 # r2 \<Rightarrow>
                       if \<not> is_cont b2 then (None, 1)
                       else (case r2 of
                               [] \<Rightarrow> (None, 2)
                             | b3 # _ \<Rightarrow>
                                 if is_cont b3
                                 then (Some ((b0 - 240) * 262144 + (b1 - 128) * 4096
                                             + (b2 - 128) * 64 + (b3 - 128)), 3)
                                 else (None, 2))))
      else (None, 0))"

text \<open>
  Modelled from the spec: the conversion of the constructor, U+FFFD for every malformed
  run.
\<close>

fun utf8_decode_replace :: "nat list \<Rightarrow> jstring" where
  "utf8_decode_replace [] = []"
| "utf8_decode_replace (b0 # rest) =
     (case utf8_step b0 rest of
        (r, k) \<Rightarrow> (case r of None \<Rightarrow> replacement_char | Some cp \<Rightarrow> cp)
                  # utf8_decode_replace (drop k rest))"

text \<open>
  The decoder that rejects malformed input instead of replacing it, for comparison: it says
  which byte sequences are well-formed and what they decode to.
\<close>

fun utf8_decode_strict :: "nat list \<Rightarrow> jstring option" where
  "utf8_decode_strict [] = Some []"
| "utf8_decode_strict (b0 # rest) =
     (case utf8_step b0 rest of
        (None, k) \<Rightarrow> None
      | (Some cp, k) \<Rightarrow>
          (case utf8_decode_strict (drop k rest) of
             None \<Rightarrow> None
           | Some cps \<Rightarrow> Some (cp # cps)))"

text \<open>
  The allocation and the lookups \<^verbatim>\<open>new_string_from_utf8_bytes\<close> makes before it
  calls the constructor, all successful.
\<close>

definition jni_lookups_succeed :: "jni_env \<Rightarrow> int \<Rightarrow> bool" where
  "jni_lookups_succeed env len \<longleftrightarrow>
     NewByteArray env len
   \<and> FindClass env ''java/nio/charset/StandardCharsets''
   \<and> GetStaticFieldID env ''java/nio/charset/StandardCharsets'' ''UTF_8''
        ''Ljava/nio/charset/Charset;''
   \<and> GetStaticObjectField env ''java/nio/charset/StandardCharsets'' ''UTF_8''
   \<and> FindClass env ''java/lang/String''
   \<and> GetMethodID env ''java/lang/String'' ''<init>'' ''([BLjava/nio/charset/Charset;)V''"

text \<open>
  Modelled from the spec: the constructor \<^verbatim>\<open>String(byte[], UTF_8)\<close> of the
  environment, given \<open>bytes\<close>, raises nothing and returns their decoding with U+FFFD
  for every malformed run.
\<close>

definition decodes_with_replacement :: "jni_env \<Rightarrow> 8 word list \<Rightarrow> bool" where
  "decodes_with_replacement env bytes \<longleftrightarrow>
     NewObject_String env bytes = (Some (utf8_decode_replace (map unat bytes)), False)"

text \<open>
  Modelled from the spec: a platform that knows the two classes, the field and the
  constructor the code asks for and nothing else, allocates arrays of any length that is
  not negative, and whose constructor is the replacing decoder; and the same platform
  without the class of the charsets.
\<close>

definition jvm :: jni_env where
  "jvm =
     \<lparr> NewByteArray = (\<lambda>len. 0 \<le> len),
       FindClass = (\<lambda>name. name = ''java/nio/charset/StandardCharsets'' \<or> name = ''java/lang/String''),
       GetStaticFieldID = (\<lambda>cls name sig. cls = ''java/nio/charset/StandardCharsets''
                             \<and> name = ''UTF_8'' \<and> sig = ''Ljava/nio/charset/Charset;''),
       GetStaticObjectField = (\<lambda>cls name. cls = ''java/nio/charset/StandardCharsets'' \<and> name = ''UTF_8''),
       GetMethodID = (\<lambda>cls name sig. cls = ''java/lang/String'' \<and> name = ''<init>''
                        \<and> sig = ''([BLjava/nio/charset/Charset;)V''),
       NewObject_String = (\<lambda>bytes. (Some (utf8_decode_replace (map unat bytes)), False)) \<rparr>"

definition no_charsets :: jni_env where
  "no_charsets = jvm\<lparr>FindClass := (\<lambda>name. name = ''java/lang/String'')\<rparr>"

section \<open>Transcription controller (whisper\_jni.cpp)\<close>

text \<open>
  The state is the pair of globals \<^verbatim>\<open>g_wctx\<close> and \<^verbatim>\<open>g_threads\<close>. The recognition
  engine is a parameter: \<open>HAS_WHISPER\<close> says whether the wrapper was compiled against
  it, and \<open>whisper_full\<close> returns the status, the context after the run and, in order,
  the points of the run at which segments were completed, each as the context the
  callback sees there with the count \<open>n_new\<close> the engine passes. Text is a string of
  bytes, \<open>None\<close> a null pointer.
\<close>

record 'w stt_state =
  g_wctx :: "'w option"
  g_threads :: int

datatype whisper_sampling_strategy = WHISPER_SAMPLING_GREEDY | WHISPER_SAMPLING_BEAM_SEARCH

record whisper_full_params =
  strategy :: whisper_sampling_strategy
  n_threads :: int
  translate :: bool
  print_progress :: bool
  print_realtime :: bool
  print_timestamps :: bool
  language :: string
  new_segment_callback :: bool

record 'w whisper_api =
  HAS_WHISPER :: bool
  whisper_init_from_file :: "string \<Rightarrow> 'w option"
  whisper_full :: "'w \<Rightarrow> whisper_full_params \<Rightarrow> real list \<Rightarrow> int \<times> 'w \<times> ('w \<times> int) list"
  whisper_full_n_segments :: "'w \<Rightarrow> int"
  whisper_full_get_segment_text :: "'w \<Rightarrow> int \<Rightarrow> string option"

definition pcm16_to_f32 :: "16 word list \<Rightarrow> real list" where
  "pcm16_to_f32 pcm = map (\<lambda>x. real_of_int (sint x) * (1 / 32768)) pcm"

definition stt_loadModel ::
  "'w whisper_api \<Rightarrow> 'w stt_state \<Rightarrow> string \<Rightarrow> int \<Rightarrow> bool \<times> 'w stt_state" where
  "stt_loadModel api s modelPath threads =
     (if \<not> HAS_WHISPER api then (False, s)
      else (let s1 = s\<lparr>g_wctx := whisper_init_from_file api modelPath, g_threads := threads\<rparr>
            in (g_wctx s1 \<noteq> None, s1)))"

definition stt_unloadModel :: "'w stt_state \<Rightarrow> 'w stt_state" where
  "stt_unloadModel s = s\<lparr>g_wctx := None\<rparr>"

text \<open>
  The parameters both transcription entry points build: the greedy defaults, the thread
  count, the translate flag, and the language tag cut at its first hyphen (\<open>en\<close> when
  the tag could not be read). No segment callback is registered by default.
\<close>

definition base_language :: "string option \<Rightarrow> string" where
  "base_language languageTag =
     (let langStr = (case languageTag of None \<Rightarrow> ''en'' | Some lang \<Rightarrow> lang)
      in takeWhile (\<lambda>ch. ch \<noteq> CHR ''-'') langStr)"

definition make_full_params :: "'w stt_state \<Rightarrow> string option \<Rightarrow> bool \<Rightarrow> whisper_full_params" where
  "make_full_params s languageTag translateToEnglish =
     \<lparr> strategy = WHISPER_SAMPLING_GREEDY, n_threads = g_threads s,
       translate = translateToEnglish, print_progress = False, print_realtime = False,
       print_timestamps = False, language = base_language languageTag,
       new_segment_callback = False \<rparr>"

text \<open>The final loop of both entry points: the texts of all segments, in order.\<close>

definition segment_text :: "'w whisper_api \<Rightarrow> 'w \<Rightarrow> int \<Rightarrow> string" where
  "segment_text api w i = (case whisper_full_get_segment_text api w i of None \<Rightarrow> [] | Some t \<Rightarrow> t)"

definition aggregate_text :: "'w whisper_api \<Rightarrow> 'w \<Rightarrow> string" where
  "aggregate_text api w = concat (map (segment_text api w) [0..whisper_full_n_segments api w - 1])"

text \<open>
  \<^verbatim>\<open>transcribePcm16\<close>. The result is the returned string (\<open>None\<close> for the null the
  caller takes as failure), the state, and the list of the runs of the engine the call
  has started (parameters and audio), which the code does not keep.
\<close>

definition transcribePcm16 ::
  "'w whisper_api \<Rightarrow> 'w stt_state \<Rightarrow> 16 word list \<Rightarrow> int \<Rightarrow> string option \<Rightarrow> bool \<Rightarrow>
   string option \<times> 'w stt_state \<times> (whisper_full_params \<times> real list) list"
where
  "transcribePcm16 api s pcm16 sampleRate languageTag translateToEnglish =
     (if \<not> HAS_WHISPER api then (None, s, [])
      else case g_wctx s of
        None \<Rightarrow> (None, s, [])
      | Some w \<Rightarrow>
          if int (length pcm16) \<le> 0 then (Some [], s, [])
          else
            (let audio = pcm16_to_f32 pcm16
             in if sampleRate \<noteq> 16000 then (None, s, [])
                else
                  (let params = make_full_params s languageTag translateToEnglish;
                       (res, w', segs) = whisper_full api w params audio;
                       s' = s\<lparr>g_wctx := Some w'\<rparr>
                   in if res \<noteq> 0 then (None, s', [(params, audio)])
                      else (Some (aggregate_text api w'), s', [(params, audio)]))))"

text \<open>
  The streaming variant. \<open>callbackObj\<close> is the sink object (\<open>None\<close> for null); what the
  wrapper needs of it is whether \<^verbatim>\<open>GetMethodID\<close> finds its \<^verbatim>\<open>onPartial\<close> method.
\<close>

datatype jcallback = Jcallback (has_onPartial: bool)

record stream_callback_ctx =
  cb_env :: bool
  callback_obj :: "jcallback option"
  mid_onPartial :: bool
  accumulated :: string

definition empty_callback_ctx :: stream_callback_ctx where
  "empty_callback_ctx = \<lparr> cb_env = False, callback_obj = None, mid_onPartial = False, accumulated = [] \<rparr>"

text \<open>
  \<^verbatim>\<open>on_new_segment_cb\<close>: returns the callback context with the new segments' texts
  appended, and the strings it has passed to \<^verbatim>\<open>onPartial\<close> (one or none).
\<close>

definition on_new_segment_cb ::
  "'w whisper_api \<Rightarrow> 'w \<Rightarrow> int \<Rightarrow> stream_callback_ctx option \<Rightarrow>
   stream_callback_ctx option \<times> string list"
where
  "on_new_segment_cb api ctx n_new user_data =
     (case user_data of
        None \<Rightarrow> (None, [])
      | Some cb \<Rightarrow>
          if \<not> cb_env cb \<or> callback_obj cb = None \<or> \<not> mid_onPartial cb then (Some cb, [])
          else
            (let n_segments = whisper_full_n_segments api ctx;
                 start = max 0 (n_segments - n_new);
                 acc = accumulated cb @ concat (map (segment_text api ctx) [start..n_segments - 1])
             in (Some (cb\<lparr>accumulated := acc\<rparr>), [acc])))"

text \<open>The engine calling the callback at each of its segment completion points.\<close>

fun run_callbacks ::
  "'w whisper_api \<Rightarrow> ('w \<times> int) list \<Rightarrow> stream_callback_ctx option \<Rightarrow> string list" where
  "run_callbacks api [] user_data = []"
| "run_callbacks api ((ctx, n_new) # rest) user_data =
     (let (user_data', out) = on_new_segment_cb api ctx n_new user_data
      in out @ run_callbacks api rest user_data')"

text \<open>
  \<^verbatim>\<open>transcribePcm16Streaming\<close>: as above, with the strings passed to the sink as a
  fourth component.
\<close>

definition transcribePcm16Streaming ::
  "'w whisper_api \<Rightarrow> 'w stt_state \<Rightarrow> 16 word list \<Rightarrow> int \<Rightarrow> string option \<Rightarrow> bool \<Rightarrow>
   jcallback option \<Rightarrow>
   string option \<times> 'w stt_state \<times> (whisper_full_params \<times> real list) list \<times> string list"
where
  "transcribePcm16Streaming api s pcm16 sampleRate languageTag translateToEnglish callbackObj =
     (if \<not> HAS_WHISPER api then (None, s, [], [])
      else case g_wctx s of
        None \<Rightarrow> (None, s, [], [])
      | Some w \<Rightarrow>
          if int (length pcm16) \<le> 0 then (Some [], s, [], [])
          else
            (let audio = pcm16_to_f32 pcm16
             in if sampleRate \<noteq> 16000 then (None, s, [], [])
                else
                  (let params0 = make_full_params s languageTag translateToEnglish;
                       cb0 = empty_callback_ctx;
                       (cb, params) =
                         (case callbackObj of
                            None \<Rightarrow> (cb0, params0)
                          | Some obj \<Rightarrow>
                              (cb0\<lparr>cb_env := True, callback_obj := Some obj,
                                   mid_onPartial := has_onPartial obj\<rparr>,
                               params0\<lparr>new_segment_callback := True\<rparr>));
                       (res, w', segs) = whisper_full api w params audio;
                       partials = (if new_segment_callback params
                                   then run_callbacks api segs (Some cb) else []);
                       s' = s\<lparr>g_wctx := Some w'\<rparr>
                   in if res \<noteq> 0 then (None, s', [(params, audio)], partials)
                      else (Some (aggregate_text api w'), s', [(params, audio)], partials))))"





section \<open>Observations and example inputs\<close>

text \<open>
  What a list of submitted batches holds, chunk after chunk: the tokens, the cache
  positions and the logits flags.
\<close>

definition submitted_tokens :: "(llama_batch \<times> int) list \<Rightarrow> llama_token list" where
  "submitted_tokens tr = concat (map (\<lambda>x. token (fst x)) tr)"

definition submitted_pos :: "(llama_batch \<times> int) list \<Rightarrow> llama_pos list" where
  "submitted_pos tr = concat (map (\<lambda>x. pos (fst x)) tr)"

definition submitted_logits :: "(llama_batch \<times> int) list \<Rightarrow> int list" where
  "submitted_logits tr = concat (map (\<lambda>x. logits (fst x)) tr)"

text \<open>
  The library's side of a decode call. \<open>nth_batch tokens B p k\<close> is the batch the loop
  builds in its round \<open>k\<close> (counting from 0) when every earlier round went on to the
  next: offset \<open>k * B\<close>, cache position \<open>p + k * B\<close>, \<open>n_eval\<close> the smaller of
  \<open>B\<close> and what is left. \<open>library_statuses api c bs\<close> are the statuses
  \<^verbatim>\<open>llama_decode\<close> reports when it is given the batches \<open>bs\<close> one after the other,
  starting in the context \<open>c\<close>, and \<open>library_ctx api c bs\<close> is the context it is left
  in. \<open>chunk_count tokens B\<close> is \<open>\<lceil>n / B\<rceil>\<close>.
\<close>

fun library_statuses :: "('m, 'c) llama_api \<Rightarrow> 'c \<Rightarrow> llama_batch list \<Rightarrow> int list" where
  "library_statuses api c [] = []"
| "library_statuses api c (b # bs) =
     fst (llama_decode api c b) # library_statuses api (snd (llama_decode api c b)) bs"

fun library_ctx :: "('m, 'c) llama_api \<Rightarrow> 'c \<Rightarrow> llama_batch list \<Rightarrow> 'c" where
  "library_ctx api c [] = c"
| "library_ctx api c (b # bs) = library_ctx api (snd (llama_decode api c b)) bs"

definition nth_batch :: "llama_token list \<Rightarrow> int \<Rightarrow> int32 \<Rightarrow> nat \<Rightarrow> llama_batch" where
  "nth_batch tokens B p k =
     make_batch tokens (int k * B) (p + word_of_int (int k * B))
       (min B (int (length tokens) - int k * B))"

definition first_batches :: "llama_token list \<Rightarrow> int \<Rightarrow> int32 \<Rightarrow> nat \<Rightarrow> llama_batch list" where
  "first_batches tokens B p k = map (nth_batch tokens B p) [0..<k]"

definition chunk_count :: "llama_token list \<Rightarrow> int \<Rightarrow> nat" where
  "chunk_count tokens B = nat \<lceil>real (length tokens) / real_of_int B\<rceil>"

text \<open>
  What one run of the decode loop from \<open>off\<close> with cache position \<open>p\<close> has done when
  it returns \<open>res\<close> and \<open>p'\<close> after submitting \<open>suf\<close>. It is the invariant of the
  proofs below; the theorems restate the parts they need.
\<close>

definition loop_post ::
  "llama_token list \<Rightarrow> int \<Rightarrow> int \<Rightarrow> int32 \<Rightarrow> int \<Rightarrow> int32 \<Rightarrow> (llama_batch \<times> int) list \<Rightarrow> bool"
where
  "loop_post tokens B off p res p' suf \<longleftrightarrow>
     submitted_tokens suf = take (length (submitted_tokens suf)) (drop (nat off) tokens)
   \<and> submitted_pos suf = map (\<lambda>k. p + word_of_nat k) [0..<length (submitted_tokens suf)]
   \<and> submitted_logits suf =
       map (\<lambda>k. if off + int k + 1 = int (length tokens) then 1 else 0)
         [0..<length (submitted_tokens suf)]
   \<and> (\<forall>x\<in>set suf. n_tokens (fst x) = int (length (token (fst x)))
         \<and> 0 < length (token (fst x)) \<and> int (length (token (fst x))) \<le> B
         \<and> length (pos (fst x)) = length (token (fst x))
         \<and> length (logits (fst x)) = length (token (fst x)))
   \<and> (\<forall>x\<in>set (butlast suf). snd x = 0)
   \<and> (res = 0 \<longrightarrow> (\<forall>x\<in>set suf. snd x = 0)
         \<and> int (length (submitted_tokens suf)) = int (length tokens) - off
         \<and> int (length suf) = (int (length tokens) - off + B - 1) div B
         \<and> p' = p + word_of_nat (length (submitted_tokens suf)))
   \<and> (res \<noteq> 0 \<longrightarrow> suf \<noteq> [] \<and> snd (last suf) = res
         \<and> p' = p + word_of_nat (length (submitted_tokens (butlast suf))))"

text \<open>The invariant of the reachable states: no context and no cache position without a model.\<close>

definition state_inv :: "('m, 'c) gen_state \<Rightarrow> bool" where
  "state_inv s \<longleftrightarrow> (g_model s = None \<longrightarrow> g_ctx s = None \<and> g_n_past s = 0)"

text \<open>
  A small library for the examples: a model file that exists and one that does not, a
  context that is created when the context size is positive, a batch width of 2, an
  evaluation that fails (status 1) once the cache would hold more than 8 tokens, and
  three kinds of token pieces (an incomplete three-byte sequence, a complete one, and a
  failing lookup).
\<close>

definition demo_piece :: "nat \<Rightarrow> llama_token \<Rightarrow> nat \<Rightarrow> int \<times> 8 word list" where
  "demo_piece m tok capacity =
     (if tok = 7 then (2, [228, 184] @ replicate (capacity - 2) 0)
      else if tok = 8 then (3, [228, 184, 173] @ replicate (capacity - 3) 0)
      else (- 1, replicate capacity 0))"

definition demo_api :: "(nat, nat) llama_api" where
  "demo_api =
     \<lparr> llama_model_load_from_file = (\<lambda>path params. if path = ''model.gguf'' then Some 1 else None),
       llama_init_from_model = (\<lambda>m params. if 0 < p_n_ctx params then Some 0 else None),
       llama_n_batch = (\<lambda>c. 2),
       llama_decode = (\<lambda>c batch. if c + nat (n_tokens batch) \<le> 8 then (0, c + nat (n_tokens batch)) else (1, c)),
       llama_get_memory = (\<lambda>c. True),
       llama_memory_clear = (\<lambda>c. 0),
       llama_token_to_piece = demo_piece \<rparr>"

definition demo_loaded :: "(nat, nat) gen_state" where
  "demo_loaded = \<lparr> g_model = Some 1, g_ctx = Some 0, g_sampler = Some default_sampler, g_n_past = 0 \<rparr>"

definition demo_nearly_full :: "(nat, nat) gen_state" where
  "demo_nearly_full = \<lparr> g_model = Some 1, g_ctx = Some 5, g_sampler = Some default_sampler, g_n_past = 5 \<rparr>"

definition demo_tokens :: "llama_token list" where
  "demo_tokens = [10, 11, 12, 13, 14]"

definition demo_trace_ok :: "(llama_batch \<times> int) list" where
  "demo_trace_ok =
    [(\<lparr>n_tokens = 2, token = [10, 11], pos = [0, 1], n_seq_id = [1, 1], seq_id = [[0], [0]], logits = [0, 0]\<rparr>, 0),
     (\<lparr>n_tokens = 2, token = [12, 13], pos = [2, 3], n_seq_id = [1, 1], seq_id = [[0], [0]], logits = [0, 0]\<rparr>, 0),
     (\<lparr>n_tokens = 1, token = [14], pos = [4], n_seq_id = [1], seq_id = [[0]], logits = [1]\<rparr>, 0)]"

definition demo_trace_fail :: "(llama_batch \<times> int) list" where
  "demo_trace_fail =
    [(\<lparr>n_tokens = 2, token = [10, 11], pos = [5, 6], n_seq_id = [1, 1], seq_id = [[0], [0]], logits = [0, 0]\<rparr>, 0),
     (\<lparr>n_tokens = 2, token = [12, 13], pos = [7, 8], n_seq_id = [1, 1], seq_id = [[0], [0]], logits = [0, 0]\<rparr>, 1)]"

definition demo_reset :: "(nat, nat) gen_state" where
  "demo_reset = fst (resetSampler initial_state (Finite 0.7) (Finite 0.9) 40)"

text \<open>
  An engine for the examples: every run completes two segments, one at a time; a context is
  the number of segments completed so far.
\<close>

definition demo_whisper :: "nat whisper_api" where
  "demo_whisper =
     \<lparr> HAS_WHISPER = True,
       whisper_init_from_file = (\<lambda>path. if path = ''ggml-base.bin'' then Some 0 else None),
       whisper_full = (\<lambda>w params audio. (0, 2, [(1, 1), (2, 1)])),
       whisper_full_n_segments = int,
       whisper_full_get_segment_text =
         (\<lambda>w i. if 0 \<le> i \<and> i < int w then Some ([''hello'', '' world''] ! nat i) else None) \<rparr>"


definition demo_stt_loaded :: "nat stt_state" where
  "demo_stt_loaded = \<lparr> g_wctx = Some 0, g_threads = 4 \<rparr>"

definition demo_pcm :: "16 word list" where
  "demo_pcm = [0, 16384]"


section \<open>Properties of the batched decode\<close>

subsection \<open>One batch\<close>

text \<open>The \<^verbatim>\<open>for\<close> loop writes entry \<open>i\<close> of every array for \<open>i < n_eval\<close>.\<close>

lemma fill_batch_eq:
  "fill_batch tokens offset n_past n_eval i batch =
     batch\<lparr> token := token batch @ map (\<lambda>i. tokens ! nat (offset + int i)) [i..<nat n_eval],
            pos := pos batch @ map (\<lambda>i. n_past + word_of_nat i) [i..<nat n_eval],
            n_seq_id := n_seq_id batch @ replicate (nat n_eval - i) 1,
            seq_id := seq_id batch @ replicate (nat n_eval - i) [0],
            logits := logits batch @ replicate (nat n_eval - i) 0 \<rparr>"
proof (induction tokens offset n_past n_eval i batch rule: fill_batch.induct)
  case (1 tokens offset n_past n_eval i batch)
  show ?case
  proof (cases "int i < n_eval")
    case True
    then have lt: "i < nat n_eval" by simp
    then have u: "[i..<nat n_eval] = i # [Suc i..<nat n_eval]"
      by (simp add: upt_conv_Cons)
    from lt have r: "nat n_eval - i = Suc (nat n_eval - Suc i)" by simp
    show ?thesis
      by (subst fill_batch.simps) (simp add: True "1.IH" u r replicate_app_Cons_same del: fill_batch.simps)
  next
    case False
    then have "nat n_eval \<le> i" by simp
    with False show ?thesis by (subst fill_batch.simps) simp
  qed
qed

lemma make_batch_eq:
  "make_batch tokens offset n_past n_eval =
     \<lparr> n_tokens = n_eval,
       token = map (\<lambda>i. tokens ! nat (offset + int i)) [0..<nat n_eval],
       pos = map (\<lambda>i. n_past + word_of_nat i) [0..<nat n_eval],
       n_seq_id = replicate (nat n_eval) 1,
       seq_id = replicate (nat n_eval) [0],
       logits =
         (if offset + n_eval = int (length tokens)
          then (replicate (nat n_eval) 0)[nat (n_eval - 1) := 1]
          else replicate (nat n_eval) 0) \<rparr>"
  by (simp add: make_batch_def fill_batch_eq Let_def del: fill_batch.simps)

lemma map_nth_upt_drop:
  "off + k \<le> length xs \<Longrightarrow> map (\<lambda>i. xs ! (off + i)) [0..<k] = take k (drop off xs)"
  by (rule nth_equalityI) auto

lemma upt_0_add:
  "[0..<a + b] = [0..<a] @ map (\<lambda>k. a + k) [0..<b]"
  by (rule nth_equalityI) (auto simp: nth_append)

lemma make_batch_token:
  assumes "0 \<le> offset" "0 \<le> n_eval" "offset + n_eval \<le> int (length tokens)"
  shows "token (make_batch tokens offset n_past n_eval) = take (nat n_eval) (drop (nat offset) tokens)"
proof -
  have "map (\<lambda>i. tokens ! nat (offset + int i)) [0..<nat n_eval]
        = map (\<lambda>i. tokens ! (nat offset + i)) [0..<nat n_eval]"
    using assms by (simp add: nat_add_distrib)
  also have "\<dots> = take (nat n_eval) (drop (nat offset) tokens)"
    using assms by (intro map_nth_upt_drop) linarith
  finally show ?thesis by (simp add: make_batch_eq)
qed

lemma make_batch_logits:
  assumes "0 < n_eval" "offset + n_eval \<le> int (length tokens)"
  shows "logits (make_batch tokens offset n_past n_eval)
         = map (\<lambda>k. if offset + int k + 1 = int (length tokens) then 1 else 0) [0..<nat n_eval]"
proof (cases "offset + n_eval = int (length tokens)")
  case True
  have "(replicate (nat n_eval) (0::int))[nat (n_eval - 1) := 1]
        = map (\<lambda>k. if offset + int k + 1 = int (length tokens) then 1 else 0) [0..<nat n_eval]"
  proof (rule nth_equalityI)
    fix i assume "i < length ((replicate (nat n_eval) (0::int))[nat (n_eval - 1) := 1])"
    then have i: "i < nat n_eval" by simp
    have "(offset + int i + 1 = int (length tokens)) = (i = nat (n_eval - 1))"
      using True assms i by auto
    then show "(replicate (nat n_eval) (0::int))[nat (n_eval - 1) := 1] ! i
               = map (\<lambda>k. if offset + int k + 1 = int (length tokens) then 1 else 0) [0..<nat n_eval] ! i"
      using i by (simp add: nth_list_update)
  qed simp
  with True show ?thesis by (simp add: make_batch_eq)
next
  case False
  have "\<And>k. k < nat n_eval \<Longrightarrow> offset + int k + 1 \<noteq> int (length tokens)"
    using False assms by linarith
  then have "map (\<lambda>k. if offset + int k + 1 = int (length tokens) then 1 else (0::int)) [0..<nat n_eval]
        = replicate (nat n_eval) 0"
    by (intro nth_equalityI) auto
  with False show ?thesis by (simp add: make_batch_eq)
qed

lemma make_batch_pos:
  "pos (make_batch tokens offset n_past n_eval) = map (\<lambda>k. n_past + word_of_nat k) [0..<nat n_eval]"
  by (simp add: make_batch_eq)

lemma make_batch_n_tokens: "n_tokens (make_batch tokens offset n_past n_eval) = n_eval"
  by (simp add: make_batch_eq)

subsection \<open>The loop\<close>

text \<open>
  With a positive batch width the loop returns, and \<open>loop_post\<close> holds of what it
  returns: by induction on the number of tokens left.
\<close>

lemma loop_post_Nil:
  assumes "0 < B"
  shows "loop_post tokens B (int (length tokens)) p 0 p []"
  using assms by (simp add: loop_post_def submitted_tokens_def submitted_pos_def submitted_logits_def)

lemma loop_post_fail:
  assumes "0 < B" "0 \<le> off" "off < int (length tokens)" "r \<noteq> 0"
    and "n_eval = min B (int (length tokens) - off)"
  shows "loop_post tokens B off p r p [(make_batch tokens off p n_eval, r)]"
proof -
  have ne: "0 < n_eval" "n_eval \<le> B" "off + n_eval \<le> int (length tokens)"
    using assms by auto
  have t: "token (make_batch tokens off p n_eval) = take (nat n_eval) (drop (nat off) tokens)"
    using ne assms by (intro make_batch_token) auto
  have len: "length (token (make_batch tokens off p n_eval)) = nat n_eval"
    by (simp add: make_batch_eq)
  show ?thesis
    unfolding loop_post_def submitted_tokens_def submitted_pos_def submitted_logits_def
    using ne assms(4) by (simp add: len make_batch_logits make_batch_pos t [symmetric] make_batch_n_tokens)
qed

lemma loop_post_step:
  assumes B: "0 < B" and off: "0 \<le> off" "off < int (length tokens)"
    and ne: "n_eval = min B (int (length tokens) - off)"
    and post: "loop_post tokens B (off + n_eval) (p + word_of_int n_eval) res p' suf"
  shows "loop_post tokens B off p res p' ((make_batch tokens off p n_eval, 0) # suf)"
proof -
  let ?b = "make_batch tokens off p n_eval"
  let ?n = "int (length tokens)"
  let ?m = "length (submitted_tokens suf)"
  have nev: "0 < n_eval" "n_eval \<le> B" "off + n_eval \<le> ?n"
    using B off ne by auto
  have t: "token ?b = take (nat n_eval) (drop (nat off) tokens)"
    using nev off by (intro make_batch_token) auto
  have len: "length (token ?b) = nat n_eval"
    by (simp add: make_batch_eq)
  have st: "submitted_tokens ((?b, 0) # suf) = token ?b @ submitted_tokens suf"
    by (simp add: submitted_tokens_def)
  have m: "length (submitted_tokens ((?b, 0) # suf)) = nat n_eval + ?m"
    by (simp add: st len)
  have woi: "(word_of_int n_eval :: int32) = word_of_nat (nat n_eval)"
    using nev by simp
  from post have p1: "submitted_tokens suf = take ?m (drop (nat (off + n_eval)) tokens)"
    and p2: "submitted_pos suf = map (\<lambda>k. p + word_of_int n_eval + word_of_nat k) [0..<?m]"
    and p3: "submitted_logits suf =
       map (\<lambda>k. if off + n_eval + int k + 1 = ?n then 1 else 0) [0..<?m]"
    and p4: "\<forall>x\<in>set suf. n_tokens (fst x) = int (length (token (fst x)))
         \<and> 0 < length (token (fst x)) \<and> int (length (token (fst x))) \<le> B
         \<and> length (pos (fst x)) = length (token (fst x))
         \<and> length (logits (fst x)) = length (token (fst x))"
    and p5: "\<forall>x\<in>set (butlast suf). snd x = 0"
    and p6: "res = 0 \<longrightarrow> (\<forall>x\<in>set suf. snd x = 0)
         \<and> int ?m = ?n - (off + n_eval)
         \<and> int (length suf) = (?n - (off + n_eval) + B - 1) div B
         \<and> p' = p + word_of_int n_eval + word_of_nat ?m"
    and p7: "res \<noteq> 0 \<longrightarrow> suf \<noteq> [] \<and> snd (last suf) = res
         \<and> p' = p + word_of_int n_eval + word_of_nat (length (submitted_tokens (butlast suf)))"
    unfolding loop_post_def by blast+
  have c1: "submitted_tokens ((?b, 0) # suf)
            = take (length (submitted_tokens ((?b, 0) # suf))) (drop (nat off) tokens)"
  proof -
    have "drop (nat (off + n_eval)) tokens = drop (nat n_eval) (drop (nat off) tokens)"
      using off nev by (simp add: nat_add_distrib add.commute)
    then have q: "take ?m (drop (nat n_eval) (drop (nat off) tokens)) = submitted_tokens suf"
      using p1 by simp
    have "take (nat n_eval + ?m) (drop (nat off) tokens)
          = take (nat n_eval) (drop (nat off) tokens)
            @ take ?m (drop (nat n_eval) (drop (nat off) tokens))"
      by (rule take_add)
    also have "\<dots> = token ?b @ submitted_tokens suf"
      by (simp only: q t)
    finally have "take (nat n_eval + ?m) (drop (nat off) tokens) = submitted_tokens ((?b, 0) # suf)"
      by (simp only: st)
    then show ?thesis
      by (simp only: m)
  qed
  have c2: "submitted_pos ((?b, 0) # suf)
            = map (\<lambda>k. p + word_of_nat k) [0..<length (submitted_tokens ((?b, 0) # suf))]"
  proof -
    have "submitted_pos ((?b, 0) # suf) = pos ?b @ submitted_pos suf"
      by (simp add: submitted_pos_def)
    also have "\<dots> = map (\<lambda>k. p + word_of_nat k) [0..<nat n_eval]
                  @ map (\<lambda>k. p + word_of_nat k) (map (\<lambda>k. nat n_eval + k) [0..<?m])"
      unfolding p2 make_batch_pos using nev by (simp add: add.assoc)
    also have "\<dots> = map (\<lambda>k. p + word_of_nat k) [0..<nat n_eval + ?m]"
      by (simp add: upt_0_add [of "nat n_eval" ?m])
    finally show ?thesis by (simp only: m)
  qed
  have c3: "submitted_logits ((?b, 0) # suf)
            = map (\<lambda>k. if off + int k + 1 = ?n then 1 else 0)
                [0..<length (submitted_tokens ((?b, 0) # suf))]"
  proof -
    have "submitted_logits ((?b, 0) # suf) = logits ?b @ submitted_logits suf"
      by (simp add: submitted_logits_def)
    also have "\<dots> = map (\<lambda>k. if off + int k + 1 = ?n then 1 else 0) [0..<nat n_eval]
                  @ map (\<lambda>k. if off + int k + 1 = ?n then 1 else 0) (map (\<lambda>k. nat n_eval + k) [0..<?m])"
      unfolding p3 using nev by (simp add: make_batch_logits add.assoc)
    also have "\<dots> = map (\<lambda>k. if off + int k + 1 = ?n then 1 else 0) [0..<nat n_eval + ?m]"
      by (simp add: upt_0_add [of "nat n_eval" ?m])
    finally show ?thesis by (simp only: m)
  qed
  have c4: "\<forall>x\<in>set ((?b, 0) # suf). n_tokens (fst x) = int (length (token (fst x)))
         \<and> 0 < length (token (fst x)) \<and> int (length (token (fst x))) \<le> B
         \<and> length (pos (fst x)) = length (token (fst x))
         \<and> length (logits (fst x)) = length (token (fst x))"
  proof -
    have "token ?b \<noteq> []" using len nev by auto
    then show ?thesis using p4 nev
      by (simp add: len make_batch_n_tokens make_batch_pos make_batch_logits)
  qed
  have c5: "\<forall>x\<in>set (butlast ((?b, 0) # suf)). snd x = 0"
    using p5 by simp
  have c6: "res = 0 \<longrightarrow> (\<forall>x\<in>set ((?b, 0) # suf). snd x = 0)
         \<and> int (length (submitted_tokens ((?b, 0) # suf))) = ?n - off
         \<and> int (length ((?b, 0) # suf)) = (?n - off + B - 1) div B
         \<and> p' = p + word_of_nat (length (submitted_tokens ((?b, 0) # suf)))"
  proof
    assume r: "res = 0"
    have d: "(?n - off + B - 1) div B = 1 + (?n - (off + n_eval) + B - 1) div B"
    proof (cases "B \<le> ?n - off")
      case True
      then have "n_eval = B" using ne by simp
      then have "?n - off + B - 1 = (?n - (off + n_eval) + B - 1) + 1 * B" by simp
      then have "(?n - off + B - 1) div B = (?n - (off + n_eval) + B - 1) div B + 1"
        using B by (simp only: div_mult_self1 [of B]) 
      then show ?thesis by simp
    next
      case False
      then have e: "n_eval = ?n - off" using ne by simp
      have "(?n - off + B - 1) div B = 1"
        using False off B by (intro int_div_pos_eq [where r = "?n - off - 1"]) auto
      moreover have "(?n - (off + n_eval) + B - 1) div B = 0"
        using e B by simp
      ultimately show ?thesis by simp
    qed
    show "(\<forall>x\<in>set ((?b, 0) # suf). snd x = 0)
         \<and> int (length (submitted_tokens ((?b, 0) # suf))) = ?n - off
         \<and> int (length ((?b, 0) # suf)) = (?n - off + B - 1) div B
         \<and> p' = p + word_of_nat (length (submitted_tokens ((?b, 0) # suf)))"
      using p6 r nev d unfolding m by (simp add: add.assoc)
  qed
  have c7: "res \<noteq> 0 \<longrightarrow> (?b, 0) # suf \<noteq> [] \<and> snd (last ((?b, 0) # suf)) = res
         \<and> p' = p + word_of_nat (length (submitted_tokens (butlast ((?b, 0) # suf))))"
  proof
    assume r: "res \<noteq> 0"
    with p7 have ne': "suf \<noteq> []" by simp
    then have "submitted_tokens (butlast ((?b, 0) # suf)) = token ?b @ submitted_tokens (butlast suf)"
      by (simp add: submitted_tokens_def)
    then show "(?b, 0) # suf \<noteq> [] \<and> snd (last ((?b, 0) # suf)) = res
         \<and> p' = p + word_of_nat (length (submitted_tokens (butlast ((?b, 0) # suf))))"
      using p7 r ne' nev by (simp add: len add.assoc)
  qed
  show ?thesis
    unfolding loop_post_def using c1 c2 c3 c4 c5 c6 c7 by blast
qed

lemma decode_loop_run:
  assumes "0 < B" "0 \<le> off" "off \<le> int (length tokens)"
  shows "\<exists>res c' p' suf. decode_loop api tokens B off c p tr = Some (res, c', p', tr @ suf)
           \<and> loop_post tokens B off p res p' suf"
  using assms
proof (induction "nat (int (length tokens) - off)" arbitrary: off c p tr rule: less_induct)
  case less
  show ?case
  proof (cases "off < int (length tokens)")
    case False
    then have e: "off = int (length tokens)" using less.prems by simp
    have "decode_loop api tokens B off c p tr = Some (0, c, p, tr @ [])"
      using False by (subst decode_loop.simps) simp
    moreover have "loop_post tokens B off p 0 p []"
      unfolding e using less.prems(1) by (rule loop_post_Nil)
    ultimately show ?thesis by blast
  next
    case True
    define n_eval where "n_eval = min B (int (length tokens) - off)"
    define b where "b = make_batch tokens off p n_eval"
    define r where "r = llama_decode api c b"
    have nev: "0 < n_eval" "off + n_eval \<le> int (length tokens)"
      using True less.prems by (auto simp: n_eval_def)
    show ?thesis
    proof (cases "fst r = 0")
      case False
      have "decode_loop api tokens B off c p tr = Some (fst r, snd r, p, tr @ [(b, fst r)])"
        using True False
        by (subst decode_loop.simps) (simp add: Let_def n_eval_def b_def r_def)
      moreover have "loop_post tokens B off p (fst r) p [(b, fst r)]"
        unfolding b_def using less.prems(1,2) True False n_eval_def by (rule loop_post_fail)
      ultimately show ?thesis by blast
    next
      case z: True
      have eq: "decode_loop api tokens B off c p tr
            = decode_loop api tokens B (off + n_eval) (snd r) (p + word_of_int n_eval) (tr @ [(b, 0)])"
        using True z
        by (subst decode_loop.simps) (simp add: Let_def n_eval_def b_def r_def)
      have "nat (int (length tokens) - (off + n_eval)) < nat (int (length tokens) - off)"
        using nev True by linarith
      moreover have "0 \<le> off + n_eval" using nev less.prems by linarith
      ultimately obtain res c' p' suf where
        run: "decode_loop api tokens B (off + n_eval) (snd r) (p + word_of_int n_eval) (tr @ [(b, 0)])
              = Some (res, c', p', (tr @ [(b, 0)]) @ suf)"
        and post: "loop_post tokens B (off + n_eval) (p + word_of_int n_eval) res p' suf"
        using less.hyps [of "off + n_eval" "snd r" "p + word_of_int n_eval" "tr @ [(b, 0)]"]
          less.prems(1) nev(2) by blast
      have "loop_post tokens B off p res p' ((b, 0) # suf)"
        unfolding b_def using less.prems(1,2) True n_eval_def post by (rule loop_post_step)
      with eq run show ?thesis by auto
    qed
  qed
qed

lemma decode_run:
  assumes "g_ctx s = Some c" and "0 < sint (llama_n_batch api c)"
  shows "\<exists>res c' p' tr.
           decode api s tokens = Some (res, s\<lparr>g_ctx := Some c', g_n_past := p'\<rparr>, tr)
         \<and> loop_post tokens (sint (llama_n_batch api c)) 0 (g_n_past s) res p' tr"
proof -
  obtain res c' p' suf where
    run: "decode_loop api tokens (sint (llama_n_batch api c)) 0 c (g_n_past s) []
          = Some (res, c', p', [] @ suf)"
    and post: "loop_post tokens (sint (llama_n_batch api c)) 0 (g_n_past s) res p' suf"
    using decode_loop_run [OF assms(2), of 0 tokens api c "g_n_past s" "[]"] by auto
  have "decode api s tokens = Some (res, s\<lparr>g_ctx := Some c', g_n_past := p'\<rparr>, suf)"
    using assms(1) run by (simp add: decode_def decode_tokens_internal_def)
  with post show ?thesis by blast
qed

lemma ceiling_div:
  assumes "0 < (b::int)"
  shows "(a + b - 1) div b = \<lceil>real_of_int a / real_of_int b\<rceil>"
proof -
  have m: "0 \<le> a mod b" "a mod b < b" using assms by simp_all
  have a: "a = b * (a div b) + a mod b" by simp
  have "(a + b - 1) div b = - (- a div b)"
  proof (cases "a mod b = 0")
    case True
    have "a + b - 1 = b * (a div b) + (b - 1)" using a True by simp
    then have "(a + b - 1) div b = a div b"
      by (rule int_div_pos_eq) (use assms in simp_all)
    moreover have "- a div b = - (a div b)"
      using True assms by (simp add: zdiv_zminus1_eq_if)
    ultimately show ?thesis by simp
  next
    case False
    have "a + b - 1 = b * (a div b + 1) + (a mod b - 1)"
      using a by (simp add: algebra_simps)
    then have "(a + b - 1) div b = a div b + 1"
      by (rule int_div_pos_eq) (use m False in simp_all)
    moreover have "- a div b = - (a div b) - 1"
      using False assms by (simp add: zdiv_zminus1_eq_if)
    ultimately show ?thesis by simp
  qed
  then show ?thesis by (simp add: ceiling_divide_eq_div)
qed

subsection \<open>Two runs of the example\<close>

lemma demo_decode_ok:
  "decode demo_api demo_loaded demo_tokens
   = Some (0, demo_loaded\<lparr>g_ctx := Some 5, g_n_past := 5\<rparr>, demo_trace_ok)"
  by code_simp

lemma demo_decode_fail:
  "decode demo_api demo_nearly_full demo_tokens
   = Some (1, demo_nearly_full\<lparr>g_ctx := Some 7, g_n_past := 7\<rparr>, demo_trace_fail)"
  by code_simp

lemma demo_ctx: "g_ctx demo_loaded = Some 0" "g_ctx demo_nearly_full = Some 5"
  by (simp_all add: demo_loaded_def demo_nearly_full_def)

lemma demo_n_batch: "sint (llama_n_batch demo_api c) = 2"
  by (simp add: demo_api_def)

subsection \<open>Chunks and cache positions\<close>

text \<open>
  What a call reports to have submitted, when every status it reports is 0: the chunks
  cover the sequence, each with at most \<open>B\<close> tokens, at consecutive positions.
\<close>

lemma decode_trace_chunks:
  assumes "g_ctx s = Some c" and "0 < sint (llama_n_batch api c)"
  shows "\<exists>res s' tr. decode api s tokens = Some (res, s', tr) \<and>
           ((\<forall>x\<in>set tr. snd x = 0) \<longrightarrow>
              res = 0
            \<and> int (length tr) = \<lceil>real (length tokens) / real_of_int (sint (llama_n_batch api c))\<rceil>
            \<and> submitted_tokens tr = tokens
            \<and> (\<forall>x\<in>set tr. n_tokens (fst x) = int (length (token (fst x)))
                  \<and> int (length (token (fst x))) \<le> sint (llama_n_batch api c)
                  \<and> length (pos (fst x)) = length (token (fst x)))
            \<and> submitted_pos tr = map (\<lambda>k. g_n_past s + word_of_nat k) [0..<length tokens]
            \<and> g_n_past s' = g_n_past s + word_of_nat (length tokens))"
proof -
  let ?B = "sint (llama_n_batch api c)"
  obtain res c' p' tr where
    run: "decode api s tokens = Some (res, s\<lparr>g_ctx := Some c', g_n_past := p'\<rparr>, tr)"
    and post: "loop_post tokens ?B 0 (g_n_past s) res p' tr"
    using decode_run [OF assms] by blast
  have "res = 0
      \<and> int (length tr) = \<lceil>real (length tokens) / real_of_int ?B\<rceil>
      \<and> submitted_tokens tr = tokens
      \<and> (\<forall>x\<in>set tr. n_tokens (fst x) = int (length (token (fst x)))
            \<and> int (length (token (fst x))) \<le> ?B
            \<and> length (pos (fst x)) = length (token (fst x)))
      \<and> submitted_pos tr = map (\<lambda>k. g_n_past s + word_of_nat k) [0..<length tokens]
      \<and> g_n_past (s\<lparr>g_ctx := Some c', g_n_past := p'\<rparr>) = g_n_past s + word_of_nat (length tokens)"
    if ok: "\<forall>x\<in>set tr. snd x = 0"
  proof -
    have r: "res = 0"
    proof (rule ccontr)
      assume "res \<noteq> 0"
      with post have "tr \<noteq> []" "snd (last tr) = res" by (simp_all add: loop_post_def)
      with ok \<open>res \<noteq> 0\<close> show False using last_in_set by fastforce
    qed
    with post have n: "length (submitted_tokens tr) = length tokens"
      and len: "int (length tr) = (int (length tokens) + ?B - 1) div ?B"
      and p: "p' = g_n_past s + word_of_nat (length (submitted_tokens tr))"
      by (simp_all add: loop_post_def)
    from post have t: "submitted_tokens tr = take (length (submitted_tokens tr)) (drop (nat 0) tokens)"
      and ps: "submitted_pos tr = map (\<lambda>k. g_n_past s + word_of_nat k) [0..<length (submitted_tokens tr)]"
      and each: "\<forall>x\<in>set tr. n_tokens (fst x) = int (length (token (fst x)))
         \<and> 0 < length (token (fst x)) \<and> int (length (token (fst x))) \<le> ?B
         \<and> length (pos (fst x)) = length (token (fst x))
         \<and> length (logits (fst x)) = length (token (fst x))"
      unfolding loop_post_def by blast+
    have "int (length tr) = \<lceil>real (length tokens) / real_of_int ?B\<rceil>"
      using len ceiling_div [OF assms(2), of "int (length tokens)"] by simp
    moreover have "submitted_tokens tr = tokens" using t n by simp
    ultimately show ?thesis using r ps each p n by simp
  qed
  with run show ?thesis by blast
qed

subsection \<open>The chunks and the library's statuses\<close>

lemma library_statuses_append:
  "library_statuses api c (xs @ ys)
     = library_statuses api c xs @ library_statuses api (library_ctx api c xs) ys"
  by (induction xs arbitrary: c) simp_all

lemma library_ctx_append:
  "library_ctx api c (xs @ ys) = library_ctx api (library_ctx api c xs) ys"
  by (induction xs arbitrary: c) simp_all

lemma first_batches_Suc:
  "first_batches tokens B p (Suc k) = first_batches tokens B p k @ [nth_batch tokens B p k]"
  by (simp add: first_batches_def)

text \<open>
  \<open>k\<close> rounds of the loop whose evaluations report 0, none of them on the final chunk,
  whatever the batch width.
\<close>

lemma decode_loop_steps:
  assumes "off < int (length tokens)" and "off + int k * B < int (length tokens)"
    and "library_statuses api c
           (map (\<lambda>j. make_batch tokens (off + int j * B) (p + word_of_int (int j * B))
                        (min B (int (length tokens) - (off + int j * B)))) [0..<k])
         = replicate k 0"
  shows "decode_loop api tokens B off c p tr
         = decode_loop api tokens B (off + int k * B)
             (library_ctx api c
               (map (\<lambda>j. make_batch tokens (off + int j * B) (p + word_of_int (int j * B))
                        (min B (int (length tokens) - (off + int j * B)))) [0..<k]))
             (p + word_of_int (int k * B))
             (tr @ map (\<lambda>b. (b, 0))
               (map (\<lambda>j. make_batch tokens (off + int j * B) (p + word_of_int (int j * B))
                        (min B (int (length tokens) - (off + int j * B)))) [0..<k]))"
  using assms
proof (induction k arbitrary: off c p tr)
  case 0
  show ?case by simp
next
  case (Suc k)
  let ?n = "int (length tokens)"
  let ?f = "\<lambda>off p j. make_batch tokens (off + int j * B) (p + word_of_int (int j * B))
                        (min B (?n - (off + int j * B)))"
  have sh: "map (?f off p) [0..<Suc k] = ?f off p 0 # map (?f (off + B) (p + word_of_int B)) [0..<k]"
    unfolding map_upt_Suc by (simp add: algebra_simps)
  have f0: "?f off p 0 = make_batch tokens off p (min B (?n - off))" by simp
  have B: "B \<le> ?n - off"
  proof (cases "0 < B")
    case True
    have "int (Suc k) * B \<ge> B" using True by (simp add: algebra_simps)
    with Suc.prems(2) show ?thesis by linarith
  next
    case False
    with Suc.prems(1) show ?thesis by linarith
  qed
  then have ne: "min B (?n - off) = B" by simp
  from Suc.prems(3) have st0: "fst (llama_decode api c (make_batch tokens off p B)) = 0"
    and strest: "library_statuses api (snd (llama_decode api c (make_batch tokens off p B)))
                   (map (?f (off + B) (p + word_of_int B)) [0..<k]) = replicate k 0"
    unfolding sh f0 ne by simp_all
  have lt: "off + B < ?n"
  proof (cases "0 < B")
    case True
    have "int (Suc k) * B \<ge> B" using True by (simp add: algebra_simps)
    with Suc.prems(2) show ?thesis by linarith
  next
    case False
    with Suc.prems(1) show ?thesis by linarith
  qed
  have lt2: "off + B + int k * B < ?n"
    using Suc.prems(2) by (simp add: algebra_simps)
  have step: "decode_loop api tokens B off c p tr
        = decode_loop api tokens B (off + B) (snd (llama_decode api c (make_batch tokens off p B)))
            (p + word_of_int B) (tr @ [(make_batch tokens off p B, 0)])"
    using Suc.prems(1) st0 by (subst decode_loop.simps) (simp add: Let_def ne)
  have ih: "decode_loop api tokens B (off + B) (snd (llama_decode api c (make_batch tokens off p B)))
            (p + word_of_int B) (tr @ [(make_batch tokens off p B, 0)])
        = decode_loop api tokens B (off + B + int k * B)
            (library_ctx api (snd (llama_decode api c (make_batch tokens off p B)))
               (map (?f (off + B) (p + word_of_int B)) [0..<k]))
            (p + word_of_int B + word_of_int (int k * B))
            ((tr @ [(make_batch tokens off p B, 0)])
              @ map (\<lambda>b. (b, 0)) (map (?f (off + B) (p + word_of_int B)) [0..<k]))"
    using lt lt2 strest by (rule Suc.IH)
  have a1: "off + B + int k * B = off + int (Suc k) * B" by (simp add: algebra_simps)
  have a2: "p + word_of_int B + word_of_int (int k * B) = p + word_of_int (int (Suc k) * B)"
    by (simp add: algebra_simps)
  show ?case
    unfolding step ih sh f0 ne a1 a2 by simp
qed


lemma library_statuses_length:
  "length (library_statuses api c bs) = length bs"
  by (induction bs arbitrary: c) simp_all

lemma first_batches_eq:
  "first_batches tokens B p k
   = map (\<lambda>j. make_batch tokens (0 + int j * B) (p + word_of_int (int j * B))
                (min B (int (length tokens) - (0 + int j * B)))) [0..<k]"
  by (simp add: first_batches_def nth_batch_def)

lemma decode_loop_first_batches:
  assumes "tokens \<noteq> []" and "int k * B < int (length tokens)"
    and "library_statuses api c (first_batches tokens B p k) = replicate k 0"
  shows "decode_loop api tokens B 0 c p []
         = decode_loop api tokens B (int k * B) (library_ctx api c (first_batches tokens B p k))
             (p + word_of_int (int k * B)) (map (\<lambda>b. (b, 0)) (first_batches tokens B p k))"
proof -
  have "0 < int (length tokens)" using assms(1) by simp
  moreover have "0 + int k * B < int (length tokens)" using assms(2) by simp
  ultimately show ?thesis
    using decode_loop_steps [of 0 tokens k B api c p "[]"] assms(3)
    unfolding first_batches_eq by simp
qed

lemma decode_loop_failing:
  assumes "off < int (length tokens)"
    and "fst (llama_decode api c (make_batch tokens off p (min B (int (length tokens) - off)))) = r"
    and "r \<noteq> 0"
  shows "decode_loop api tokens B off c p tr
         = Some (r, snd (llama_decode api c (make_batch tokens off p (min B (int (length tokens) - off)))),
                 p, tr @ [(make_batch tokens off p (min B (int (length tokens) - off)), r)])"
  using assms by (subst decode_loop.simps) (simp add: Let_def)

lemma decode_loop_final:
  assumes "off < int (length tokens)" and "int (length tokens) - off \<le> B"
    and "fst (llama_decode api c (make_batch tokens off p (min B (int (length tokens) - off)))) = 0"
  shows "decode_loop api tokens B off c p tr
         = Some (0, snd (llama_decode api c (make_batch tokens off p (min B (int (length tokens) - off)))),
                 p + word_of_int (int (length tokens) - off),
                 tr @ [(make_batch tokens off p (min B (int (length tokens) - off)), 0)])"
proof -
  have ne: "min B (int (length tokens) - off) = int (length tokens) - off"
    using assms(2) by simp
  have "decode_loop api tokens B off c p tr
        = decode_loop api tokens B (off + (int (length tokens) - off))
            (snd (llama_decode api c (make_batch tokens off p (int (length tokens) - off))))
            (p + word_of_int (int (length tokens) - off))
            (tr @ [(make_batch tokens off p (int (length tokens) - off), 0)])"
    using assms(1,3) unfolding ne by (subst decode_loop.simps) (simp add: Let_def ne)
  also have "\<dots> = Some (0, snd (llama_decode api c (make_batch tokens off p (int (length tokens) - off))),
                 p + word_of_int (int (length tokens) - off),
                 tr @ [(make_batch tokens off p (int (length tokens) - off), 0)])"
    by (subst decode_loop.simps) simp
  finally show ?thesis unfolding ne .
qed

lemma nth_batch_n_tokens:
  "n_tokens (nth_batch tokens B p k) = min B (int (length tokens) - int k * B)"
  by (simp add: nth_batch_def make_batch_n_tokens)

lemma first_batches_n_tokens:
  assumes "tokens \<noteq> []" and "int k * B < int (length tokens)"
  shows "sum_list (map n_tokens (first_batches tokens B p k)) = int k * B"
proof -
  have "\<And>j. j < k \<Longrightarrow> n_tokens (nth_batch tokens B p j) = B"
  proof -
    fix j assume j: "j < k"
    have "B \<le> int (length tokens) - int j * B"
    proof (cases "0 < B")
      case True
      have "int (Suc j) \<le> int k" using j by simp
      then have "int (Suc j) * B \<le> int k * B" using True by (intro mult_right_mono) simp_all
      with assms(2) show ?thesis by (simp add: algebra_simps)
    next
      case False
      then have "int j * B \<le> 0" by (simp add: mult_nonneg_nonpos)
      with False assms(1) show ?thesis by (cases tokens) auto
    qed
    then show "n_tokens (nth_batch tokens B p j) = B" by (simp add: nth_batch_n_tokens)
  qed
  then have "map n_tokens (first_batches tokens B p k) = replicate k B"
    by (intro nth_equalityI) (simp_all add: first_batches_def)
  then show ?thesis by (simp add: sum_list_replicate)
qed

lemma decode_first_failure:
  assumes ctx: "g_ctx s = Some c" and B: "sint (llama_n_batch api c) = B"
    and ne: "tokens \<noteq> []" and k: "int k * B < int (length tokens)"
    and st: "library_statuses api c (first_batches tokens B (g_n_past s) (Suc k)) = replicate k 0 @ [r]"
    and r: "r \<noteq> 0"
  shows "decode api s tokens
         = Some (r,
                 s\<lparr>g_ctx := Some (library_ctx api c (first_batches tokens B (g_n_past s) (Suc k))),
                   g_n_past := g_n_past s
                     + word_of_int (sum_list (map n_tokens (first_batches tokens B (g_n_past s) k)))\<rparr>,
                 map (\<lambda>b. (b, 0)) (first_batches tokens B (g_n_past s) k)
                 @ [(nth_batch tokens B (g_n_past s) k, r)])"
proof -
  let ?p = "g_n_past s"
  let ?fk = "first_batches tokens B ?p k"
  let ?ck = "library_ctx api c ?fk"
  let ?b = "nth_batch tokens B ?p k"
  from st have st': "library_statuses api c ?fk @ [fst (llama_decode api ?ck ?b)] = replicate k 0 @ [r]"
    by (simp add: first_batches_Suc library_statuses_append)
  have "length (library_statuses api c ?fk) = k"
    by (simp add: library_statuses_length first_batches_def)
  with st' have ok: "library_statuses api c ?fk = replicate k 0"
    and bad: "fst (llama_decode api ?ck ?b) = r"
    by simp_all
  have b: "?b = make_batch tokens (int k * B) (?p + word_of_int (int k * B))
                  (min B (int (length tokens) - int k * B))"
    by (simp add: nth_batch_def)
  have "decode_loop api tokens B 0 c ?p []
        = decode_loop api tokens B (int k * B) ?ck (?p + word_of_int (int k * B))
            (map (\<lambda>b. (b, 0)) ?fk)"
    using ne k ok by (rule decode_loop_first_batches)
  also have "\<dots> = Some (r, snd (llama_decode api ?ck ?b), ?p + word_of_int (int k * B),
                        map (\<lambda>b. (b, 0)) ?fk @ [(?b, r)])"
    unfolding b using k bad [unfolded b] r by (rule decode_loop_failing)
  finally have run: "decode_loop api tokens B 0 c ?p []
        = Some (r, snd (llama_decode api ?ck ?b), ?p + word_of_int (int k * B),
                map (\<lambda>b. (b, 0)) ?fk @ [(?b, r)])" .
  have c': "library_ctx api c (first_batches tokens B ?p (Suc k)) = snd (llama_decode api ?ck ?b)"
    by (simp add: first_batches_Suc library_ctx_append)
  have sum: "sum_list (map n_tokens ?fk) = int k * B"
    using ne k by (rule first_batches_n_tokens)
  show ?thesis
    using ctx run by (simp add: decode_def decode_tokens_internal_def B c' sum)
qed


lemma chunk_count_bounds:
  assumes "0 < B" and "tokens \<noteq> []"
  shows "0 < chunk_count tokens B"
    and "int (chunk_count tokens B - 1) * B < int (length tokens)"
    and "int (length tokens) \<le> int (chunk_count tokens B) * B"
proof -
  let ?n = "int (length tokens)"
  have n: "0 < ?n" using assms(2) by simp
  have c: "\<lceil>real (length tokens) / real_of_int B\<rceil> = (?n + B - 1) div B"
    using ceiling_div [OF assms(1), of ?n] by simp
  have m: "0 \<le> (?n + B - 1) mod B" "(?n + B - 1) mod B < B" using assms(1) by simp_all
  have d: "?n + B - 1 = B * ((?n + B - 1) div B) + (?n + B - 1) mod B" by simp
  have pos: "0 < (?n + B - 1) div B"
    using n assms(1) by (simp add: pos_imp_zdiv_pos_iff)
  then show 1: "0 < chunk_count tokens B" by (simp add: chunk_count_def c)
  have cc: "int (chunk_count tokens B) = (?n + B - 1) div B"
    using pos by (simp add: chunk_count_def c)
  have le: "B * ((?n + B - 1) div B) \<le> ?n + B - 1" using d m(1) by linarith
  have "int (chunk_count tokens B - 1) = (?n + B - 1) div B - 1"
    using 1 cc by simp
  then have "int (chunk_count tokens B - 1) * B = ((?n + B - 1) div B - 1) * B"
    by (simp only:)
  also have "\<dots> = B * ((?n + B - 1) div B) - B"
    by (simp add: algebra_simps)
  finally have "int (chunk_count tokens B - 1) * B = B * ((?n + B - 1) div B) - B" .
  with le show "int (chunk_count tokens B - 1) * B < ?n" by linarith
  have "?n \<le> B * ((?n + B - 1) div B)" using d m(2) by linarith
  then show "?n \<le> int (chunk_count tokens B) * B" by (simp add: cc mult.commute)
qed

lemma decode_all_ok:
  assumes ctx: "g_ctx s = Some c" and B: "sint (llama_n_batch api c) = B" and pos: "0 < B"
    and st: "library_statuses api c (first_batches tokens B (g_n_past s) (chunk_count tokens B))
             = replicate (chunk_count tokens B) 0"
  shows "decode api s tokens
         = Some (0,
                 s\<lparr>g_ctx := Some (library_ctx api c
                                    (first_batches tokens B (g_n_past s) (chunk_count tokens B))),
                   g_n_past := g_n_past s + word_of_nat (length tokens)\<rparr>,
                 map (\<lambda>b. (b, 0)) (first_batches tokens B (g_n_past s) (chunk_count tokens B)))"
proof (cases "tokens = []")
  case True
  then have "chunk_count tokens B = 0" by (simp add: chunk_count_def)
  moreover have "decode_loop api [] B 0 c (g_n_past s) [] = Some (0, c, g_n_past s, [])"
    by (subst decode_loop.simps) simp
  ultimately show ?thesis
    using ctx True by (simp add: decode_def decode_tokens_internal_def B first_batches_def)
next
  case False
  let ?p = "g_n_past s"
  let ?N = "chunk_count tokens B"
  obtain k where N: "?N = Suc k"
    using chunk_count_bounds(1) [OF pos False] by (cases ?N) simp_all
  let ?fk = "first_batches tokens B ?p k"
  let ?ck = "library_ctx api c ?fk"
  let ?b = "nth_batch tokens B ?p k"
  have k: "int k * B < int (length tokens)"
    using chunk_count_bounds(2) [OF pos False] N by simp
  have rest: "int (length tokens) - int k * B \<le> B"
    using chunk_count_bounds(3) [OF pos False] N by (simp add: algebra_simps)
  from st have st': "library_statuses api c ?fk @ [fst (llama_decode api ?ck ?b)] = replicate k 0 @ [0]"
    unfolding N by (simp add: first_batches_Suc library_statuses_append replicate_append_same)
  have "length (library_statuses api c ?fk) = k"
    by (simp add: library_statuses_length first_batches_def)
  with st' have ok: "library_statuses api c ?fk = replicate k 0"
    and last: "fst (llama_decode api ?ck ?b) = 0"
    by simp_all
  have b: "?b = make_batch tokens (int k * B) (?p + word_of_int (int k * B))
                  (min B (int (length tokens) - int k * B))"
    by (simp add: nth_batch_def)
  have "decode_loop api tokens B 0 c ?p []
        = decode_loop api tokens B (int k * B) ?ck (?p + word_of_int (int k * B))
            (map (\<lambda>b. (b, 0)) ?fk)"
    using False k ok by (rule decode_loop_first_batches)
  also have "\<dots> = Some (0, snd (llama_decode api ?ck ?b),
                        ?p + word_of_int (int k * B) + word_of_int (int (length tokens) - int k * B),
                        map (\<lambda>b. (b, 0)) ?fk @ [(?b, 0)])"
    unfolding b using k rest last [unfolded b] by (rule decode_loop_final)
  finally have run: "decode_loop api tokens B 0 c ?p []
        = Some (0, snd (llama_decode api ?ck ?b),
                ?p + word_of_int (int k * B) + word_of_int (int (length tokens) - int k * B),
                map (\<lambda>b. (b, 0)) ?fk @ [(?b, 0)])" .
  have c': "library_ctx api c (first_batches tokens B ?p ?N) = snd (llama_decode api ?ck ?b)"
    unfolding N by (simp add: first_batches_Suc library_ctx_append)
  have tr: "map (\<lambda>b. (b, 0::int)) (first_batches tokens B ?p ?N) = map (\<lambda>b. (b, 0)) ?fk @ [(?b, 0)]"
    unfolding N by (simp add: first_batches_Suc)
  have p: "?p + word_of_int (int k * B) + word_of_int (int (length tokens) - int k * B)
           = ?p + word_of_nat (length tokens)"
  proof -
    have "(word_of_int (int k * B) :: 32 word) + word_of_int (int (length tokens) - int k * B)
          = word_of_int (int (length tokens))"
      by (simp only: of_int_add [symmetric]) simp
    then show ?thesis by (simp add: add.assoc)
  qed
  have "decode api s tokens
        = Some (0, s\<lparr>g_ctx := Some (snd (llama_decode api ?ck ?b)),
                     g_n_past := ?p + word_of_nat (length tokens)\<rparr>,
                map (\<lambda>b. (b, 0)) ?fk @ [(?b, 0)])"
    using ctx run p by (simp add: decode_def decode_tokens_internal_def B)
  then show ?thesis unfolding c' tr .
qed


lemma nth_batch_token:
  assumes "0 < B" and "int k * B < int (length tokens)"
  shows "token (nth_batch tokens B p k) = take (nat B) (drop (k * nat B) tokens)"
proof -
  have o: "0 \<le> int k * B" using assms(1) by simp
  have "token (nth_batch tokens B p k)
        = take (nat (min B (int (length tokens) - int k * B))) (drop (nat (int k * B)) tokens)"
    unfolding nth_batch_def using o assms by (intro make_batch_token) simp_all
  moreover have "nat (int k * B) = k * nat B" using assms(1) by (simp add: nat_mult_distrib)
  moreover have "nat (min B (int (length tokens) - int k * B))
                 = min (nat B) (length (drop (k * nat B) tokens))"
  proof -
    have e: "int (k * nat B) = int k * B" using assms(1) by simp
    with assms(2) have "k * nat B \<le> length tokens" by linarith
    then have "int (length tokens - k * nat B) = int (length tokens) - int (k * nat B)"
      by (rule of_nat_diff)
    with e have "int (length tokens - k * nat B) = int (length tokens) - int k * B" by simp
    then show ?thesis using assms(1) by (simp add: min_def) linarith
  qed
  ultimately show ?thesis by (simp add: min_def)
qed

lemma first_batches_status_map:
  "submitted_tokens (map (\<lambda>b. (b, r)) bs) = concat (map token bs)"
  "submitted_pos (map (\<lambda>b. (b, r)) bs) = concat (map pos bs)"
  by (simp_all add: submitted_tokens_def submitted_pos_def comp_def)

lemma demo_chunk_count: "chunk_count demo_tokens 2 = 3"
  by (simp add: chunk_count_def demo_tokens_def)

lemma demo_first_batches:
  "first_batches demo_tokens 2 0 3 = map fst demo_trace_ok"
  "first_batches demo_tokens 2 5 2 = map fst demo_trace_fail"
  by code_simp+

lemma demo_statuses_ok:
  "library_statuses demo_api 0 (first_batches demo_tokens 2 0 3) = replicate 3 0"
  "library_ctx demo_api 0 (first_batches demo_tokens 2 0 3) = 5"
  by code_simp+

lemma demo_statuses_fail:
  "library_statuses demo_api 5 (first_batches demo_tokens 2 5 2) = replicate 1 0 @ [1]"
  "library_ctx demo_api 5 (first_batches demo_tokens 2 5 2) = 7"
  by code_simp+

subsection \<open>Success\<close>

text \<open>
  Claim C1. For a loaded Context of positive batch width \<open>B\<close> and a token sequence of
  length \<open>n\<close>, provided the library reports status 0 for each of the \<open>\<lceil>n / B\<rceil>\<close>
  chunks (\<^verbatim>\<open>llama_decode\<close> called on the chunks in order, each call in the context the
  previous one left): \<open>decode\<close> returns 0, having submitted exactly those
  \<open>\<lceil>n / B\<rceil>\<close> chunks; chunk \<open>k\<close> holds the at most \<open>B\<close> tokens of the sequence
  from offset \<open>k * B\<close> on, so that the chunks, put together, are the sequence;
  \<open>n_tokens\<close> of each chunk is its number of tokens; the positions assigned, put
  together, are CachePosition before the call plus 0, 1, ..., \<open>n - 1\<close>, which is each
  token's offset in the whole sequence; CachePosition ends at its value before the call
  plus \<open>n\<close> (in 32-bit arithmetic), and the Context is the one the library left after
  the last chunk.
\<close>

theorem decode_chunks:
  assumes "g_ctx s = Some c" and "sint (llama_n_batch api c) = B" and "0 < B"
    and "library_statuses api c (first_batches tokens B (g_n_past s) (chunk_count tokens B))
         = replicate (chunk_count tokens B) 0"
  shows "decode api s tokens
         = Some (0,
                 s\<lparr>g_ctx := Some (library_ctx api c
                                    (first_batches tokens B (g_n_past s) (chunk_count tokens B))),
                   g_n_past := g_n_past s + word_of_nat (length tokens)\<rparr>,
                 map (\<lambda>b. (b, 0)) (first_batches tokens B (g_n_past s) (chunk_count tokens B)))
       \<and> int (length (first_batches tokens B (g_n_past s) (chunk_count tokens B)))
           = \<lceil>real (length tokens) / real_of_int B\<rceil>
       \<and> concat (map token (first_batches tokens B (g_n_past s) (chunk_count tokens B))) = tokens
       \<and> (\<forall>k<chunk_count tokens B.
             token (first_batches tokens B (g_n_past s) (chunk_count tokens B) ! k)
               = take (nat B) (drop (k * nat B) tokens))
       \<and> (\<forall>b\<in>set (first_batches tokens B (g_n_past s) (chunk_count tokens B)).
             n_tokens b = int (length (token b)) \<and> int (length (token b)) \<le> B
           \<and> length (pos b) = length (token b))
       \<and> concat (map pos (first_batches tokens B (g_n_past s) (chunk_count tokens B)))
           = map (\<lambda>i. g_n_past s + word_of_nat i) [0..<length tokens]"
proof -
  let ?chunks = "first_batches tokens B (g_n_past s) (chunk_count tokens B)"
  let ?tr = "map (\<lambda>b. (b, 0::int)) ?chunks"
  have run: "decode api s tokens
         = Some (0, s\<lparr>g_ctx := Some (library_ctx api c ?chunks),
                      g_n_past := g_n_past s + word_of_nat (length tokens)\<rparr>, ?tr)"
    using assms by (rule decode_all_ok)
  have pos: "0 < sint (llama_n_batch api c)" using assms(2,3) by simp
  have ok: "\<forall>x\<in>set ?tr. snd x = 0" by auto
  obtain res s' tr' where d: "decode api s tokens = Some (res, s', tr')"
    and imp: "(\<forall>x\<in>set tr'. snd x = 0) \<longrightarrow>
              res = 0
            \<and> int (length tr') = \<lceil>real (length tokens) / real_of_int (sint (llama_n_batch api c))\<rceil>
            \<and> submitted_tokens tr' = tokens
            \<and> (\<forall>x\<in>set tr'. n_tokens (fst x) = int (length (token (fst x)))
                  \<and> int (length (token (fst x))) \<le> sint (llama_n_batch api c)
                  \<and> length (pos (fst x)) = length (token (fst x)))
            \<and> submitted_pos tr' = map (\<lambda>k. g_n_past s + word_of_nat k) [0..<length tokens]
            \<and> g_n_past s' = g_n_past s + word_of_nat (length tokens)"
    using decode_trace_chunks [OF assms(1) pos, of tokens] by blast
  from d run have t: "tr' = ?tr" by simp
  have "\<forall>x\<in>set tr'. snd x = 0" unfolding t by auto
  with imp have "submitted_tokens tr' = tokens
          \<and> (\<forall>x\<in>set tr'. n_tokens (fst x) = int (length (token (fst x)))
                  \<and> int (length (token (fst x))) \<le> sint (llama_n_batch api c)
                  \<and> length (pos (fst x)) = length (token (fst x)))
          \<and> submitted_pos tr' = map (\<lambda>k. g_n_past s + word_of_nat k) [0..<length tokens]"
    by blast
  then have tr: "submitted_tokens ?tr = tokens
          \<and> (\<forall>x\<in>set ?tr. n_tokens (fst x) = int (length (token (fst x)))
                  \<and> int (length (token (fst x))) \<le> sint (llama_n_batch api c)
                  \<and> length (pos (fst x)) = length (token (fst x)))
          \<and> submitted_pos ?tr = map (\<lambda>k. g_n_past s + word_of_nat k) [0..<length tokens]"
    unfolding t .
  have len: "int (length ?chunks) = \<lceil>real (length tokens) / real_of_int B\<rceil>"
  proof -
    have "0 \<le> real (length tokens) / real_of_int B" using assms(3) by simp
    then have "0 \<le> \<lceil>real (length tokens) / real_of_int B\<rceil>" by linarith
    then show ?thesis by (simp add: first_batches_def chunk_count_def)
  qed
  have nth: "\<forall>k<chunk_count tokens B. token (?chunks ! k) = take (nat B) (drop (k * nat B) tokens)"
  proof (intro allI impI)
    fix k assume k: "k < chunk_count tokens B"
    then have ne: "tokens \<noteq> []" by (auto simp: chunk_count_def)
    have "int k \<le> int (chunk_count tokens B - 1)" using k by simp
    then have "int k * B \<le> int (chunk_count tokens B - 1) * B"
      using assms(3) by (intro mult_right_mono) simp_all
    with chunk_count_bounds(2) [OF assms(3) ne]
    have "int k * B < int (length tokens)" by linarith
    with assms(3) have "token (nth_batch tokens B (g_n_past s) k) = take (nat B) (drop (k * nat B) tokens)"
      by (rule nth_batch_token)
    with k show "token (?chunks ! k) = take (nat B) (drop (k * nat B) tokens)"
      by (simp add: first_batches_def)
  qed
  have each: "\<forall>b\<in>set ?chunks. n_tokens b = int (length (token b)) \<and> int (length (token b)) \<le> B
           \<and> length (pos b) = length (token b)"
    using tr assms(2) by auto
  from tr have "concat (map token ?chunks) = tokens"
    and "concat (map pos ?chunks) = map (\<lambda>i. g_n_past s + word_of_nat i) [0..<length tokens]"
    by (simp_all add: first_batches_status_map)
  with run len nth each show ?thesis by blast
qed

text \<open>Five tokens with batch width 2: three chunks, positions 0 to 4, CachePosition 5.\<close>

theorem decode_chunks_witness:
  "g_ctx demo_loaded = Some 0 \<and> sint (llama_n_batch demo_api 0) = 2 \<and> (0::int) < 2
   \<and> chunk_count demo_tokens 2 = 3
   \<and> library_statuses demo_api 0 (first_batches demo_tokens 2 (g_n_past demo_loaded) 3) = [0, 0, 0]
   \<and> decode demo_api demo_loaded demo_tokens
       = Some (0, demo_loaded\<lparr>g_ctx := Some 5, g_n_past := 5\<rparr>, demo_trace_ok)
   \<and> map token (first_batches demo_tokens 2 (g_n_past demo_loaded) 3) = [[10, 11], [12, 13], [14]]
   \<and> map pos (first_batches demo_tokens 2 (g_n_past demo_loaded) 3) = [[0, 1], [2, 3], [4]]
   \<and> map n_tokens (first_batches demo_tokens 2 (g_n_past demo_loaded) 3) = [2, 2, 1]"
proof -
  have p: "g_n_past demo_loaded = 0" by (simp add: demo_loaded_def)
  have st: "library_statuses demo_api 0
              (first_batches demo_tokens 2 (g_n_past demo_loaded) (chunk_count demo_tokens 2))
            = replicate (chunk_count demo_tokens 2) 0"
    by (simp only: p demo_chunk_count demo_statuses_ok)
  have tr: "map (\<lambda>b. (b, 0::int)) (map fst demo_trace_ok) = demo_trace_ok"
    by (simp add: demo_trace_ok_def)
  have five: "(word_of_nat (length demo_tokens) :: int32) = 5" by (simp add: demo_tokens_def)
  have z: "(0::int) < 2" by simp
  have "decode demo_api demo_loaded demo_tokens
        = Some (0, demo_loaded\<lparr>g_ctx := Some (library_ctx demo_api 0
                       (first_batches demo_tokens 2 (g_n_past demo_loaded) (chunk_count demo_tokens 2))),
                     g_n_past := g_n_past demo_loaded + word_of_nat (length demo_tokens)\<rparr>,
                map (\<lambda>b. (b, 0))
                  (first_batches demo_tokens 2 (g_n_past demo_loaded) (chunk_count demo_tokens 2)))"
    using decode_chunks [OF demo_ctx(1) demo_n_batch z st] by (rule conjunct1)
  then have "decode demo_api demo_loaded demo_tokens
        = Some (0, demo_loaded\<lparr>g_ctx := Some 5, g_n_past := 0 + 5\<rparr>,
                map (\<lambda>b. (b, 0)) (first_batches demo_tokens 2 0 3))"
    unfolding p demo_chunk_count demo_statuses_ok five .
  then have "decode demo_api demo_loaded demo_tokens
        = Some (0, demo_loaded\<lparr>g_ctx := Some 5, g_n_past := 5\<rparr>, demo_trace_ok)"
    unfolding demo_first_batches tr by simp
  moreover have "library_statuses demo_api 0 (first_batches demo_tokens 2 (g_n_past demo_loaded) 3) = [0, 0, 0]"
  proof -
    have "replicate 3 (0::int) = [0, 0, 0]" by (simp add: eval_nat_numeral)
    then show ?thesis by (simp only: p demo_statuses_ok)
  qed
  ultimately show ?thesis
    by (simp add: demo_ctx demo_n_batch demo_chunk_count p demo_first_batches demo_trace_ok_def)
qed

subsection \<open>Failure\<close>

text \<open>
  Claim C3. Without a Context \<open>decode\<close> returns -1 and the state, CachePosition
  included, is unchanged. With a Context of batch width \<open>B\<close> and a sequence that is not
  empty: if the library reports status 0 for the first \<open>k\<close> chunks and a non-zero status
  \<open>r\<close> for the chunk after them (\<^verbatim>\<open>llama_decode\<close> called on the chunks in order, each
  call in the context the previous one left; that chunk starts inside the sequence), then
  \<open>decode\<close> returns \<open>r\<close>, it has submitted those \<open>k + 1\<close> chunks and no other, and
  CachePosition is its value before the call plus the sum of \<open>n_tokens\<close> of the \<open>k\<close>
  chunks before the failing one, which is \<open>k * B\<close>: the failing chunk adds nothing and
  nothing is rolled back.
\<close>

theorem decode_failure:
  "(g_ctx s = None \<longrightarrow> decode api s tokens = Some (- 1, s, []))
   \<and> (\<forall>c B k r.
         g_ctx s = Some c \<and> sint (llama_n_batch api c) = B
       \<and> tokens \<noteq> [] \<and> int k * B < int (length tokens)
       \<and> library_statuses api c (first_batches tokens B (g_n_past s) (Suc k)) = replicate k 0 @ [r]
       \<and> r \<noteq> 0 \<longrightarrow>
         decode api s tokens
         = Some (r,
                 s\<lparr>g_ctx := Some (library_ctx api c (first_batches tokens B (g_n_past s) (Suc k))),
                   g_n_past := g_n_past s
                     + word_of_int (sum_list (map n_tokens (first_batches tokens B (g_n_past s) k)))\<rparr>,
                 map (\<lambda>b. (b, 0)) (first_batches tokens B (g_n_past s) k)
                 @ [(nth_batch tokens B (g_n_past s) k, r)])
       \<and> sum_list (map n_tokens (first_batches tokens B (g_n_past s) k)) = int k * B)"
proof (intro conjI allI impI)
  assume "g_ctx s = None"
  then show "decode api s tokens = Some (- 1, s, [])" by (simp add: decode_def)
next
  fix c B k r
  assume a: "g_ctx s = Some c \<and> sint (llama_n_batch api c) = B
       \<and> tokens \<noteq> [] \<and> int k * B < int (length tokens)
       \<and> library_statuses api c (first_batches tokens B (g_n_past s) (Suc k)) = replicate k 0 @ [r]
       \<and> r \<noteq> 0"
  then show "decode api s tokens
         = Some (r,
                 s\<lparr>g_ctx := Some (library_ctx api c (first_batches tokens B (g_n_past s) (Suc k))),
                   g_n_past := g_n_past s
                     + word_of_int (sum_list (map n_tokens (first_batches tokens B (g_n_past s) k)))\<rparr>,
                 map (\<lambda>b. (b, 0)) (first_batches tokens B (g_n_past s) k)
                 @ [(nth_batch tokens B (g_n_past s) k, r)])"
    by (intro decode_first_failure) simp_all
  from a show "sum_list (map n_tokens (first_batches tokens B (g_n_past s) k)) = int k * B"
    by (intro first_batches_n_tokens) simp_all
qed

text \<open>
  No Context: -1. A cache holding 5 of at most 8 tokens and five more tokens: the first
  chunk of 2 succeeds, the second fails with status 1, CachePosition is 7.
\<close>

theorem decode_failure_witness:
  "g_ctx (initial_state :: (nat, nat) gen_state) = None
   \<and> decode demo_api initial_state demo_tokens = Some (- 1, initial_state, [])
   \<and> g_ctx demo_nearly_full = Some 5 \<and> sint (llama_n_batch demo_api 5) = 2
   \<and> demo_tokens \<noteq> [] \<and> int 1 * 2 < int (length demo_tokens)
   \<and> library_statuses demo_api 5 (first_batches demo_tokens 2 (g_n_past demo_nearly_full) (Suc 1))
       = replicate 1 0 @ [1]
   \<and> (1::int) \<noteq> 0
   \<and> decode demo_api demo_nearly_full demo_tokens
       = Some (1, demo_nearly_full\<lparr>g_ctx := Some 7, g_n_past := 7\<rparr>, demo_trace_fail)
   \<and> sum_list (map n_tokens (first_batches demo_tokens 2 (g_n_past demo_nearly_full) 1)) = 2"
proof -
  have n: "g_ctx (initial_state :: (nat, nat) gen_state) = None" by (simp add: initial_state_def)
  have p: "g_n_past demo_nearly_full = 5" by (simp add: demo_nearly_full_def)
  have two: "Suc 1 = 2" by simp
  have one: "(1::int) \<noteq> 0" by simp
  have h: "demo_tokens \<noteq> []" "int 1 * 2 < int (length demo_tokens)"
    by (simp_all add: demo_tokens_def)
  have st: "library_statuses demo_api 5 (first_batches demo_tokens 2 (g_n_past demo_nearly_full) (Suc 1))
            = replicate 1 0 @ [1]"
    by (simp only: p two demo_statuses_fail)
  have 1: "decode demo_api initial_state demo_tokens = Some (- 1, initial_state, [])"
    using decode_failure [of "initial_state :: (nat, nat) gen_state" demo_api demo_tokens] n by blast
  have f1: "first_batches demo_tokens 2 5 1 = [fst (hd demo_trace_fail)]"
    "nth_batch demo_tokens 2 5 1 = fst (demo_trace_fail ! 1)"
    by code_simp+
  have "decode demo_api demo_nearly_full demo_tokens
         = Some (1,
                 demo_nearly_full\<lparr>g_ctx := Some (library_ctx demo_api 5
                       (first_batches demo_tokens 2 (g_n_past demo_nearly_full) (Suc 1))),
                   g_n_past := g_n_past demo_nearly_full
                     + word_of_int (sum_list (map n_tokens
                         (first_batches demo_tokens 2 (g_n_past demo_nearly_full) 1)))\<rparr>,
                 map (\<lambda>b. (b, 0)) (first_batches demo_tokens 2 (g_n_past demo_nearly_full) 1)
                 @ [(nth_batch demo_tokens 2 (g_n_past demo_nearly_full) 1, 1)])
       \<and> sum_list (map n_tokens (first_batches demo_tokens 2 (g_n_past demo_nearly_full) 1)) = int 1 * 2"
    using decode_failure [of demo_nearly_full demo_api demo_tokens, THEN conjunct2, rule_format,
        of 5 2 1 1] demo_ctx(2) demo_n_batch [of 5] h st one by blast
  then have "decode demo_api demo_nearly_full demo_tokens
         = Some (1,
                 demo_nearly_full\<lparr>g_ctx := Some 7,
                   g_n_past := 5 + word_of_int (sum_list (map n_tokens [fst (hd demo_trace_fail)]))\<rparr>,
                 map (\<lambda>b. (b, 0)) [fst (hd demo_trace_fail)] @ [(fst (demo_trace_fail ! 1), 1)])
       \<and> sum_list (map n_tokens (first_batches demo_tokens 2 (g_n_past demo_nearly_full) 1)) = int 1 * 2"
    unfolding p two demo_statuses_fail f1 .
  then have 2: "decode demo_api demo_nearly_full demo_tokens
       = Some (1, demo_nearly_full\<lparr>g_ctx := Some 7, g_n_past := 7\<rparr>, demo_trace_fail)"
    and 3: "sum_list (map n_tokens (first_batches demo_tokens 2 (g_n_past demo_nearly_full) 1)) = 2"
    by (simp_all add: demo_trace_fail_def)
  show ?thesis
    using n 1 2 3 h st by (simp add: demo_ctx demo_n_batch)
qed

subsection \<open>Logits flags\<close>

lemma submitted_length_le:
  assumes "loop_post tokens B 0 p res p' tr"
  shows "length (submitted_tokens tr) \<le> length tokens"
proof -
  from assms have "submitted_tokens tr = take (length (submitted_tokens tr)) (drop (nat 0) tokens)"
    unfolding loop_post_def by blast
  then have "length (submitted_tokens tr) = min (length tokens) (length (submitted_tokens tr))"
    by (metis drop0 length_take nat_0 min.commute)
  then show ?thesis by simp
qed

text \<open>
  Claim C2, as amended. For a loaded Context of positive batch width \<open>decode\<close>
  returns, every submitted chunk has one logits flag per token, and the flags of the
  submitted chunks, read in order, are all unset except the one of the last token of the
  sequence, which is the last token of the final chunk. So when the final chunk is
  submitted (the submitted tokens are the whole sequence, as they are whenever the call
  returns 0) and the sequence is not empty, exactly one flag is set, the last; and when the
  call stops before the final chunk, no flag is set in any submitted chunk.
\<close>

theorem decode_logits_flags:
  assumes "g_ctx s = Some c" and "0 < sint (llama_n_batch api c)"
  shows "\<exists>res s' tr. decode api s tokens = Some (res, s', tr)
         \<and> (\<forall>x\<in>set tr. length (logits (fst x)) = length (token (fst x)))
         \<and> (res = 0 \<longrightarrow> submitted_tokens tr = tokens)
         \<and> (submitted_tokens tr = tokens \<and> tokens \<noteq> [] \<longrightarrow>
              submitted_logits tr = replicate (length tokens - 1) 0 @ [1])
         \<and> (submitted_tokens tr \<noteq> tokens \<longrightarrow>
              submitted_logits tr = replicate (length (submitted_tokens tr)) 0)"
proof -
  let ?B = "sint (llama_n_batch api c)"
  obtain res c' p' tr where
    run: "decode api s tokens = Some (res, s\<lparr>g_ctx := Some c', g_n_past := p'\<rparr>, tr)"
    and post: "loop_post tokens ?B 0 (g_n_past s) res p' tr"
    using decode_run [OF assms] by blast
  let ?m = "length (submitted_tokens tr)"
  from post have t: "submitted_tokens tr = take ?m (drop (nat 0) tokens)"
    and lg: "submitted_logits tr
             = map (\<lambda>k. if 0 + int k + 1 = int (length tokens) then 1 else 0) [0..<?m]"
    and each: "\<forall>x\<in>set tr. n_tokens (fst x) = int (length (token (fst x)))
         \<and> 0 < length (token (fst x)) \<and> int (length (token (fst x))) \<le> ?B
         \<and> length (pos (fst x)) = length (token (fst x))
         \<and> length (logits (fst x)) = length (token (fst x))"
    and r0: "res = 0 \<longrightarrow> int ?m = int (length tokens) - 0"
    unfolding loop_post_def by blast+
  have le: "?m \<le> length tokens" using post by (rule submitted_length_le)
  have all: "?m = length tokens \<Longrightarrow> submitted_tokens tr = tokens"
    using t by simp
  have a: "res = 0 \<longrightarrow> submitted_tokens tr = tokens"
    using r0 all by simp
  have b: "submitted_tokens tr = tokens \<and> tokens \<noteq> [] \<longrightarrow>
              submitted_logits tr = replicate (length tokens - 1) 0 @ [1]"
  proof
    assume h: "submitted_tokens tr = tokens \<and> tokens \<noteq> []"
    then have m: "?m = length tokens" "0 < length tokens" by simp_all
    show "submitted_logits tr = replicate (length tokens - 1) 0 @ [1]"
      unfolding lg m(1) using m(2) by (intro nth_equalityI) (auto simp: nth_append)
  qed
  have c: "submitted_tokens tr \<noteq> tokens \<longrightarrow>
              submitted_logits tr = replicate ?m 0"
  proof
    assume "submitted_tokens tr \<noteq> tokens"
    then have "?m < length tokens" using le all by fastforce
    then show "submitted_logits tr = replicate ?m 0"
      unfolding lg by (intro nth_equalityI) auto
  qed
  from run each a b c show ?thesis by blast
qed

text \<open>The successful run has the flags 0, 0, 0, 0, 1; the failing run has 0, 0, 0, 0.\<close>

theorem decode_logits_flags_witness:
  "g_ctx demo_loaded = Some 0 \<and> 0 < sint (llama_n_batch demo_api 0)
   \<and> decode demo_api demo_loaded demo_tokens
       = Some (0, demo_loaded\<lparr>g_ctx := Some 5, g_n_past := 5\<rparr>, demo_trace_ok)
   \<and> submitted_tokens demo_trace_ok = demo_tokens \<and> demo_tokens \<noteq> []
   \<and> submitted_logits demo_trace_ok = [0, 0, 0, 0, 1]
   \<and> g_ctx demo_nearly_full = Some 5 \<and> 0 < sint (llama_n_batch demo_api 5)
   \<and> decode demo_api demo_nearly_full demo_tokens
       = Some (1, demo_nearly_full\<lparr>g_ctx := Some 7, g_n_past := 7\<rparr>, demo_trace_fail)
   \<and> submitted_tokens demo_trace_fail \<noteq> demo_tokens
   \<and> submitted_logits demo_trace_fail = [0, 0, 0, 0]"
proof -
  have b0: "0 < sint (llama_n_batch demo_api 0)" "0 < sint (llama_n_batch demo_api 5)"
    by (simp_all add: demo_n_batch)
  have ne: "demo_tokens \<noteq> []" by (simp add: demo_tokens_def)
  have nf: "submitted_tokens demo_trace_fail \<noteq> demo_tokens"
    by (simp add: submitted_tokens_def demo_trace_fail_def demo_tokens_def)
  have ok: "submitted_tokens demo_trace_ok = demo_tokens
          \<and> submitted_logits demo_trace_ok = replicate (length demo_tokens - 1) 0 @ [1]"
    using decode_logits_flags [OF demo_ctx(1) b0(1), of demo_tokens] ne
    unfolding demo_decode_ok by blast
  have fl: "submitted_logits demo_trace_fail = replicate (length (submitted_tokens demo_trace_fail)) 0"
    using decode_logits_flags [OF demo_ctx(2) b0(2), of demo_tokens] nf
    unfolding demo_decode_fail by blast
  have "replicate (length demo_tokens - 1) 0 @ [1] = [0, 0, 0, 0, 1 :: int]"
    by (simp add: demo_tokens_def eval_nat_numeral)
  moreover have "replicate (length (submitted_tokens demo_trace_fail)) 0 = [0, 0, 0, 0 :: int]"
    by (simp add: submitted_tokens_def demo_trace_fail_def eval_nat_numeral)
  ultimately show ?thesis
    using ok fl b0 ne nf demo_decode_ok demo_decode_fail by (simp add: demo_ctx)
qed

text \<open>
  The claim as stated (exactly one position with logits requested in every call on a
  non-empty sequence) fails on the run that stops at its second chunk: two chunks were
  submitted and none of their four flags is set.
\<close>

theorem decode_logits_counterexample:
  "demo_tokens \<noteq> []
   \<and> decode demo_api demo_nearly_full demo_tokens
       = Some (1, demo_nearly_full\<lparr>g_ctx := Some 7, g_n_past := 7\<rparr>, demo_trace_fail)
   \<and> submitted_logits demo_trace_fail = [0, 0, 0, 0]"
  using demo_decode_fail
  by (simp add: submitted_logits_def demo_trace_fail_def demo_tokens_def)

section \<open>Properties of loading and of the sampler\<close>

lemma default_sampler_stages:
  "default_sampler = [Top_k 40, Top_p (Finite 0.9) 1, Temp (Finite 0.7), Dist 42]"
  by (simp add: default_sampler_def llama_sampler_chain_add_def llama_sampler_chain_init_def)

lemma unload_existing_None: "g_model s = None \<Longrightarrow> unload_existing s = (s, [])"
  by (simp add: unload_existing_def)

lemma unload_existing_Some:
  "g_model s = Some m \<Longrightarrow>
   unload_existing s =
     (s\<lparr>g_sampler := None, g_ctx := None, g_model := None, g_n_past := 0\<rparr>,
      (case g_sampler s of None \<Rightarrow> [] | Some smpl \<Rightarrow> [Llama_sampler_free smpl])
      @ (case g_ctx s of None \<Rightarrow> [] | Some c \<Rightarrow> [Llama_free c])
      @ [Llama_model_free m])"
  by (simp add: unload_existing_def)

lemma decode_state:
  assumes "decode api s tokens = Some (res, s', tr)"
  shows "g_model s' = g_model s \<and> g_sampler s' = g_sampler s
         \<and> (g_ctx s = None \<longrightarrow> s' = s) \<and> (g_ctx s \<noteq> None \<longrightarrow> g_ctx s' \<noteq> None)"
  using assms
  by (auto simp: decode_def decode_tokens_internal_def split: option.splits if_splits)

lemma loadModel_cases:
  "loadModel api s modelPath contextSize threads =
     (case llama_model_load_from_file api modelPath default_model_params of
        None \<Rightarrow>
          (False, (fst (unload_existing s))\<lparr>g_model := None\<rparr>,
           snd (unload_existing s) @ [Llama_model_load_from_file modelPath default_model_params])
      | Some m \<Rightarrow>
          (case llama_init_from_model api m (make_context_params contextSize threads) of
             None \<Rightarrow>
               (False, (fst (unload_existing s))\<lparr>g_model := None, g_ctx := None\<rparr>,
                snd (unload_existing s)
                @ [Llama_model_load_from_file modelPath default_model_params,
                   Llama_init_from_model m (make_context_params contextSize threads),
                   Llama_model_free m])
           | Some c \<Rightarrow>
               (True,
                (fst (unload_existing s))\<lparr>g_model := Some m, g_ctx := Some c, g_n_past := 0,
                                          g_sampler := Some default_sampler\<rparr>,
                snd (unload_existing s)
                @ [Llama_model_load_from_file modelPath default_model_params,
                   Llama_init_from_model m (make_context_params contextSize threads)])))"
  by (simp add: loadModel_def Let_def split: prod.splits option.splits)

lemma unload_existing_inv:
  "state_inv s \<Longrightarrow> g_ctx (fst (unload_existing s)) = None \<and> g_n_past (fst (unload_existing s)) = 0
     \<and> g_model (fst (unload_existing s)) = None"
  by (cases "g_model s") (auto simp: unload_existing_def state_inv_def)

lemma reachable_inv: "reachable api s \<Longrightarrow> state_inv s"
proof (induction rule: reachable.induct)
  case r_initial
  show ?case by (simp add: state_inv_def initial_state_def)
next
  case (r_loadModel s modelPath contextSize threads)
  then show ?case
    using unload_existing_inv [of s]
    by (auto simp: loadModel_cases state_inv_def split: option.splits)
next
  case (r_unloadModel s)
  show ?case by (simp add: unloadModel_def state_inv_def)
next
  case (r_decode s tokens res s' tr)
  then show ?case
    using decode_state [of api s tokens res s' tr] by (auto simp: state_inv_def)
next
  case (r_resetSampler s temperature topP topK)
  then show ?case by (simp add: resetSampler_def state_inv_def Let_def)
next
  case (r_clearContext s)
  then show ?case by (auto simp: clearContext_def state_inv_def Let_def split: option.splits)
qed

subsection \<open>Loads of the example\<close>

lemma demo_loaded_load:
  "loadModel demo_api initial_state ''model.gguf'' 2048 4
     = (True, demo_loaded,
        [Llama_model_load_from_file ''model.gguf'' default_model_params,
         Llama_init_from_model 1 (make_context_params 2048 4)])"
  by (simp add: loadModel_cases unload_existing_def initial_state_def demo_api_def
        demo_loaded_def make_context_params_def)

lemma demo_loaded_reachable: "reachable demo_api demo_loaded"
  using r_loadModel [OF r_initial, of demo_api "''model.gguf''" 2048 4]
  by (simp add: demo_loaded_load)

lemma demo_reset_reachable: "reachable demo_api demo_reset"
  unfolding demo_reset_def by (rule r_resetSampler [OF r_initial])

lemma demo_reset_state:
  "demo_reset = \<lparr> g_model = None, g_ctx = None,
                  g_sampler = Some [Top_k 40, Top_p (Finite 0.9) 1, Temp (Finite 0.7), Dist 42],
                  g_n_past = 0 \<rparr>"
  by (simp add: demo_reset_def resetSampler_def initial_state_def Let_def
        llama_sampler_chain_add_def llama_sampler_chain_init_def)

lemma demo_load_missing:
  "llama_model_load_from_file demo_api ''missing.gguf'' default_model_params = None"
  by (simp add: demo_api_def)

lemma demo_load_model:
  "llama_model_load_from_file demo_api ''model.gguf'' default_model_params = Some 1"
  by (simp add: demo_api_def)

lemma demo_init_fails:
  "llama_init_from_model demo_api 1 (make_context_params 0 4) = None"
  by (simp add: demo_api_def make_context_params_def)

lemma demo_reload_missing:
  "loadModel demo_api demo_loaded ''missing.gguf'' 2048 4
     = (False, initial_state,
        [Llama_sampler_free default_sampler, Llama_free 0, Llama_model_free 1,
         Llama_model_load_from_file ''missing.gguf'' default_model_params])"
  by (simp add: loadModel_cases unload_existing_def initial_state_def demo_api_def demo_loaded_def)

lemma demo_reload_no_ctx:
  "loadModel demo_api demo_loaded ''model.gguf'' 0 4
     = (False, initial_state,
        [Llama_sampler_free default_sampler, Llama_free 0, Llama_model_free 1,
         Llama_model_load_from_file ''model.gguf'' default_model_params,
         Llama_init_from_model 1 (make_context_params 0 4),
         Llama_model_free 1])"
  by (simp add: loadModel_cases unload_existing_def initial_state_def demo_api_def demo_loaded_def
        make_context_params_def)

subsection \<open>Failing loads\<close>

text \<open>
  Claim C5, as amended. In a state the entry points can produce, whatever
  \<open>loadModel\<close> returns: if the weight load fails, it returns failure with Model and
  Context null and CachePosition 0, and with SamplerChain null too whenever a Model was
  loaded before the call or there was no SamplerChain; if the weight load succeeds and
  Context creation fails, the same holds and the last call made is the release of the
  just-loaded Model; and when a Model is loaded before the call, the calls made start with
  the release of the SamplerChain (if any), of the Context (if any) and of the Model, in
  that order, followed by the new weight load.
\<close>

theorem loadModel_failure:
  assumes "reachable api s"
    and "loadModel api s modelPath contextSize threads = (ok, s', calls)"
  shows "(llama_model_load_from_file api modelPath default_model_params = None \<longrightarrow>
            \<not> ok \<and> g_model s' = None \<and> g_ctx s' = None \<and> g_n_past s' = 0
          \<and> (g_model s \<noteq> None \<or> g_sampler s = None \<longrightarrow> g_sampler s' = None))
       \<and> (\<forall>m. llama_model_load_from_file api modelPath default_model_params = Some m
              \<and> llama_init_from_model api m (make_context_params contextSize threads) = None \<longrightarrow>
            \<not> ok \<and> g_model s' = None \<and> g_ctx s' = None \<and> g_n_past s' = 0
          \<and> (g_model s \<noteq> None \<or> g_sampler s = None \<longrightarrow> g_sampler s' = None)
          \<and> calls \<noteq> [] \<and> last calls = Llama_model_free m)
       \<and> (\<forall>m0. g_model s = Some m0 \<longrightarrow>
            (\<exists>rest. calls =
               (case g_sampler s of None \<Rightarrow> [] | Some smpl \<Rightarrow> [Llama_sampler_free smpl])
               @ (case g_ctx s of None \<Rightarrow> [] | Some c \<Rightarrow> [Llama_free c])
               @ [Llama_model_free m0, Llama_model_load_from_file modelPath default_model_params]
               @ rest))"
proof -
  have inv: "state_inv s" using assms(1) by (rule reachable_inv)
  note u = unload_existing_inv [OF inv]
  have s: "g_model s \<noteq> None \<or> g_sampler s = None \<Longrightarrow> g_sampler (fst (unload_existing s)) = None"
    by (cases "g_model s") (auto simp: unload_existing_def)
  have 1: "llama_model_load_from_file api modelPath default_model_params = None \<longrightarrow>
            \<not> ok \<and> g_model s' = None \<and> g_ctx s' = None \<and> g_n_past s' = 0
          \<and> (g_model s \<noteq> None \<or> g_sampler s = None \<longrightarrow> g_sampler s' = None)"
    using assms(2) u s by (auto simp: loadModel_cases)
  have 2: "\<forall>m. llama_model_load_from_file api modelPath default_model_params = Some m
              \<and> llama_init_from_model api m (make_context_params contextSize threads) = None \<longrightarrow>
            \<not> ok \<and> g_model s' = None \<and> g_ctx s' = None \<and> g_n_past s' = 0
          \<and> (g_model s \<noteq> None \<or> g_sampler s = None \<longrightarrow> g_sampler s' = None)
          \<and> calls \<noteq> [] \<and> last calls = Llama_model_free m"
    using assms(2) u s by (auto simp: loadModel_cases)
  have 3: "\<forall>m0. g_model s = Some m0 \<longrightarrow>
            (\<exists>rest. calls =
               (case g_sampler s of None \<Rightarrow> [] | Some smpl \<Rightarrow> [Llama_sampler_free smpl])
               @ (case g_ctx s of None \<Rightarrow> [] | Some c \<Rightarrow> [Llama_free c])
               @ [Llama_model_free m0, Llama_model_load_from_file modelPath default_model_params]
               @ rest)"
    using assms(2)
    by (auto simp: loadModel_cases unload_existing_Some split: option.splits)
  from 1 2 3 show ?thesis by blast
qed

text \<open>
  Reloading over a loaded model with a file that does not exist, and with a context size
  for which no context is created.
\<close>

theorem loadModel_failure_witness:
  "reachable demo_api demo_loaded
   \<and> llama_model_load_from_file demo_api ''missing.gguf'' default_model_params = None
   \<and> loadModel demo_api demo_loaded ''missing.gguf'' 2048 4
       = (False, initial_state,
          [Llama_sampler_free default_sampler, Llama_free 0, Llama_model_free 1,
           Llama_model_load_from_file ''missing.gguf'' default_model_params])
   \<and> g_model demo_loaded = Some 1
   \<and> g_sampler (initial_state :: (nat, nat) gen_state) = None
   \<and> g_model (initial_state :: (nat, nat) gen_state) = None
   \<and> g_ctx (initial_state :: (nat, nat) gen_state) = None
   \<and> g_n_past (initial_state :: (nat, nat) gen_state) = 0
   \<and> llama_model_load_from_file demo_api ''model.gguf'' default_model_params = Some 1
   \<and> llama_init_from_model demo_api 1 (make_context_params 0 4) = None
   \<and> loadModel demo_api demo_loaded ''model.gguf'' 0 4
       = (False, initial_state,
          [Llama_sampler_free default_sampler, Llama_free 0, Llama_model_free 1,
           Llama_model_load_from_file ''model.gguf'' default_model_params,
           Llama_init_from_model 1 (make_context_params 0 4),
           Llama_model_free 1])"
proof -
  have m: "g_model demo_loaded = Some 1" by (simp add: demo_loaded_def)
  note a = loadModel_failure [OF demo_loaded_reachable demo_reload_missing]
  note b = loadModel_failure [OF demo_loaded_reachable demo_reload_no_ctx]
  from a demo_load_missing m
  have 1: "g_model (initial_state :: (nat, nat) gen_state) = None
         \<and> g_ctx (initial_state :: (nat, nat) gen_state) = None
         \<and> g_n_past (initial_state :: (nat, nat) gen_state) = 0
         \<and> g_sampler (initial_state :: (nat, nat) gen_state) = None"
    by simp
  from b demo_load_model demo_init_fails
  have 2: "last [Llama_sampler_free default_sampler, Llama_free 0, Llama_model_free 1,
           Llama_model_load_from_file ''model.gguf'' default_model_params,
           Llama_init_from_model 1 (make_context_params 0 4),
           Llama_model_free (1::nat)] = Llama_model_free 1"
    by simp
  show ?thesis
    using 1 2 demo_loaded_reachable demo_load_missing demo_load_model demo_init_fails
      demo_reload_missing demo_reload_no_ctx m
    by simp
qed

text \<open>
  The claim as stated fails in the state reached by \<^verbatim>\<open>resetSampler\<close> before any
  load: the weight load fails and the SamplerChain is still there.
\<close>

theorem loadModel_failure_counterexample:
  "reachable demo_api demo_reset
   \<and> llama_model_load_from_file demo_api ''missing.gguf'' default_model_params = None
   \<and> loadModel demo_api demo_reset ''missing.gguf'' 2048 4
       = (False, demo_reset, [Llama_model_load_from_file ''missing.gguf'' default_model_params])
   \<and> g_sampler demo_reset = Some [Top_k 40, Top_p (Finite 0.9) 1, Temp (Finite 0.7), Dist 42]"
  using demo_reset_reachable
  by (simp add: loadModel_cases unload_existing_def demo_reset_state demo_api_def)

subsection \<open>Successful loads\<close>

text \<open>
  Claim C6. Whenever \<open>loadModel\<close> returns success, CachePosition is 0, the
  SamplerChain is exactly top-k(40), top-p(0.9, min-keep 1), temperature(0.7), draw(seed 42)
  in that order, and Model, Context and SamplerChain are all non-null.
\<close>

theorem loadModel_success:
  assumes "loadModel api s modelPath contextSize threads = (True, s', calls)"
  shows "g_n_past s' = 0
       \<and> g_sampler s' = Some [Top_k 40, Top_p (Finite 0.9) 1, Temp (Finite 0.7), Dist 42]
       \<and> g_model s' \<noteq> None \<and> g_ctx s' \<noteq> None"
  using assms
  by (auto simp: loadModel_cases default_sampler_stages split: option.splits)

theorem loadModel_success_witness:
  "loadModel demo_api initial_state ''model.gguf'' 2048 4
     = (True, demo_loaded,
        [Llama_model_load_from_file ''model.gguf'' default_model_params,
         Llama_init_from_model 1 (make_context_params 2048 4)])
   \<and> g_n_past demo_loaded = 0
   \<and> g_sampler demo_loaded = Some [Top_k 40, Top_p (Finite 0.9) 1, Temp (Finite 0.7), Dist 42]
   \<and> g_model demo_loaded = Some 1 \<and> g_ctx demo_loaded = Some 0"
  using loadModel_success [OF demo_loaded_load] demo_loaded_load
  by (simp add: demo_loaded_def)

subsection \<open>Reconfiguring the sampler\<close>

text \<open>
  Claim C7. For all arguments \<open>resetSampler\<close> sets the SamplerChain to: a top-k stage
  iff \<open>topK > 0\<close>, then a top-p stage (min-keep 1) iff \<open>topP < 1.0\<close>, then the
  temperature stage followed by the draw with seed 42 if \<open>temperature > 0\<close> and the
  greedy stage alone otherwise; the Context handle and CachePosition are unchanged.
\<close>

theorem resetSampler_chain:
  "g_sampler (fst (resetSampler s temperature topP topK))
     = Some ((if topK > 0 then [Top_k topK] else [])
             @ (if jfloat_less topP (Finite 1) then [Top_p topP 1] else [])
             @ (if jfloat_less (Finite 0) temperature then [Temp temperature, Dist 42] else [Greedy]))
   \<and> g_ctx (fst (resetSampler s temperature topP topK)) = g_ctx s
   \<and> g_n_past (fst (resetSampler s temperature topP topK)) = g_n_past s"
  by (simp add: resetSampler_def Let_def llama_sampler_chain_add_def llama_sampler_chain_init_def)

theorem resetSampler_chain_witness:
  "g_sampler (fst (resetSampler demo_loaded (Finite 0.8) (Finite 0.95) 50))
     = Some [Top_k 50, Top_p (Finite 0.95) 1, Temp (Finite 0.8), Dist 42]
   \<and> g_sampler (fst (resetSampler demo_loaded (Finite 0) (Finite 1) 0)) = Some [Greedy]
   \<and> g_sampler (fst (resetSampler demo_loaded NaN NaN (- 1))) = Some [Greedy]
   \<and> g_ctx (fst (resetSampler demo_loaded (Finite 0.8) (Finite 0.95) 50)) = Some 0
   \<and> g_n_past (fst (resetSampler demo_loaded (Finite 0.8) (Finite 0.95) 50)) = 0"
  using resetSampler_chain [of demo_loaded "Finite 0.8" "Finite 0.95" 50]
    resetSampler_chain [of demo_loaded "Finite 0" "Finite 1" 0]
    resetSampler_chain [of demo_loaded NaN NaN "- 1"]
  by (simp add: demo_loaded_def)

section \<open>Properties of detokenization\<close>

lemma utf8_decode_strict_Cons:
  "utf8_step b0 rest = (r, k) \<Longrightarrow>
   utf8_decode_strict (b0 # rest) =
     (case r of
        None \<Rightarrow> None
      | Some cp \<Rightarrow> map_option ((#) cp) (utf8_decode_strict (drop k rest)))"
  by (cases r; cases "utf8_decode_strict (drop k rest)") simp_all

lemma utf8_decode_replace_Cons:
  "utf8_step b0 rest = (r, k) \<Longrightarrow>
   utf8_decode_replace (b0 # rest) =
     (case r of None \<Rightarrow> replacement_char | Some cp \<Rightarrow> cp) # utf8_decode_replace (drop k rest)"
  by simp

lemma utf8_decode_valid:
  "utf8_decode_strict bs = Some cps \<Longrightarrow> utf8_decode_replace bs = cps"
proof (induction bs arbitrary: cps rule: utf8_decode_replace.induct)
  case 1
  then show ?case by simp
next
  case (2 b0 rest)
  obtain r k where st: "utf8_step b0 rest = (r, k)" by (cases "utf8_step b0 rest")
  from "2.prems" have e: "(case r of
        None \<Rightarrow> None
      | Some cp \<Rightarrow> map_option ((#) cp) (utf8_decode_strict (drop k rest))) = Some cps"
    unfolding utf8_decode_strict_Cons [OF st] .
  then obtain cp where r: "r = Some cp" by (cases r) simp_all
  from e obtain cps' where tl: "utf8_decode_strict (drop k rest) = Some cps'" and cps: "cps = cp # cps'"
    unfolding r by (cases "utf8_decode_strict (drop k rest)") auto
  have "utf8_decode_replace (drop k rest) = cps'"
    using st tl by (intro "2.IH") simp_all
  then show ?case
    unfolding utf8_decode_replace_Cons [OF st] r cps by simp
qed

lemma utf8_decode_invalid:
  "utf8_decode_strict bs = None \<Longrightarrow> replacement_char \<in> set (utf8_decode_replace bs)"
proof (induction bs rule: utf8_decode_replace.induct)
  case 1
  then show ?case by simp
next
  case (2 b0 rest)
  obtain r k where st: "utf8_step b0 rest = (r, k)" by (cases "utf8_step b0 rest")
  show ?case
  proof (cases r)
    case None
    then show ?thesis unfolding utf8_decode_replace_Cons [OF st] by simp
  next
    case (Some cp)
    from "2.prems" have "utf8_decode_strict (drop k rest) = None"
      unfolding utf8_decode_strict_Cons [OF st] Some by simp
    with st have "replacement_char \<in> set (utf8_decode_replace (drop k rest))"
      by (intro "2.IH") simp_all
    then show ?thesis
      unfolding utf8_decode_replace_Cons [OF st] by simp
  qed
qed

lemma new_string_lookups_succeed:
  assumes "0 < len" and "jni_lookups_succeed env len"
    and "NewObject_String env (take (nat len) bs) = (Some out, False)"
  shows "new_string_from_utf8_bytes env (Some bs) len = out"
  using assms by (simp add: new_string_from_utf8_bytes_def jni_lookups_succeed_def Let_def)

lemma jvm_lookups: "0 \<le> len \<Longrightarrow> jni_lookups_succeed jvm len"
  by (simp add: jni_lookups_succeed_def jvm_def)

lemma jvm_decodes: "decodes_with_replacement jvm bytes"
  by (simp add: decodes_with_replacement_def jvm_def)

lemma new_string_any_env:
  "new_string_from_utf8_bytes env (Some bs) len = []
   \<or> (\<exists>out. NewObject_String env (take (nat len) bs) = (Some out, False)
             \<and> new_string_from_utf8_bytes env (Some bs) len = out)"
  by (cases "NewObject_String env (take (nat len) bs)")
     (auto simp: new_string_from_utf8_bytes_def Let_def split: option.splits)

lemma demo_pieces:
  "llama_token_to_piece demo_api 1 7 4096 = (2, [228, 184] @ replicate 4094 0)"
  "llama_token_to_piece demo_api 1 8 4096 = (3, [228, 184, 173] @ replicate 4093 0)"
  "llama_token_to_piece demo_api 1 9 4096 = (- 1, replicate 4096 0)"
  by (simp_all add: demo_api_def demo_piece_def)

lemma demo_decoded:
  "utf8_decode_strict [228, 184] = None"
  "utf8_decode_strict [228, 184, 173] = Some [20013]"
  by (simp_all add: utf8_step_def second_ok_def is_cont_def)

text \<open>
  Claim C4. With a loaded Model and whatever the piece lookup returns for the token (a
  length no larger than the buffer it was given, which is where the wrapper reads the
  bytes): a negative length, and the length 0, give the empty string in every JNI
  environment. For a positive length, in every JNI environment in which the allocation
  and the lookups the code makes succeed and whose constructor decodes the returned bytes
  (the first \<open>len\<close> bytes of the buffer) as the spec says, the result is the decoding of
  those bytes that replaces malformed runs by U+FFFD, which is the strict decoding where
  the bytes are well-formed UTF-8 and contains U+FFFD where they are not. And in every
  JNI environment whatsoever the result is either the empty string or the string the
  constructor built from those bytes, so that the operation yields a string for every byte
  sequence.
\<close>

theorem tokenToString_replaces:
  assumes "g_model s = Some m" and "llama_token_to_piece api m tok 4096 = (len, buf)"
    and "len \<le> int (length buf)"
  shows "(len \<le> 0 \<longrightarrow> tokenToString api env s tok = [])
       \<and> (0 < len \<and> jni_lookups_succeed env len
            \<and> decodes_with_replacement env (take (nat len) buf) \<longrightarrow>
              tokenToString api env s tok = utf8_decode_replace (map unat (take (nat len) buf))
            \<and> (\<forall>cps. utf8_decode_strict (map unat (take (nat len) buf)) = Some cps \<longrightarrow>
                  tokenToString api env s tok = cps)
            \<and> (utf8_decode_strict (map unat (take (nat len) buf)) = None \<longrightarrow>
                  replacement_char \<in> set (tokenToString api env s tok)))
       \<and> (tokenToString api env s tok = []
            \<or> (\<exists>out. NewObject_String env (take (nat len) buf) = (Some out, False)
                      \<and> tokenToString api env s tok = out))"
proof -
  have neg: "len \<le> 0 \<longrightarrow> tokenToString api env s tok = []"
    using assms(1,2) by (simp add: tokenToString_def new_string_from_utf8_bytes_def)
  have run: "tokenToString api env s tok = utf8_decode_replace (map unat (take (nat len) buf))"
    if "0 < len" and "jni_lookups_succeed env len"
      and "decodes_with_replacement env (take (nat len) buf)"
  proof -
    have "new_string_from_utf8_bytes env (Some buf) len
          = utf8_decode_replace (map unat (take (nat len) buf))"
      using that by (intro new_string_lookups_succeed) (simp_all add: decodes_with_replacement_def)
    with assms(1,2) that(1) show ?thesis by (simp add: tokenToString_def)
  qed
  have any: "tokenToString api env s tok = []
            \<or> (\<exists>out. NewObject_String env (take (nat len) buf) = (Some out, False)
                      \<and> tokenToString api env s tok = out)"
    using assms(1,2) new_string_any_env [of env buf len] by (simp add: tokenToString_def)
  from neg run any utf8_decode_valid utf8_decode_invalid show ?thesis
    by (metis (no_types, lifting))
qed

text \<open>
  On a platform that knows only what the code asks for: token 7 is the incomplete sequence
  E4 B8 and becomes U+FFFD; token 8 is E4 B8 AD and becomes U+4E2D; the lookup of token 9
  fails and gives the empty string. Without the class of the charsets token 8 gives the
  empty string.
\<close>

theorem tokenToString_replaces_witness:
  "g_model demo_loaded = Some 1
   \<and> llama_token_to_piece demo_api 1 7 4096 = (2, [228, 184] @ replicate 4094 0)
   \<and> (2 :: int) \<le> int (length ([228, 184] @ replicate 4094 (0 :: 8 word)))
   \<and> (0 :: int) < 2 \<and> jni_lookups_succeed jvm 2 \<and> \<not> NewByteArray jvm (- 1)
   \<and> \<not> FindClass jvm ''java/lang/Object''
   \<and> decodes_with_replacement jvm [228, 184]
   \<and> utf8_decode_strict [228, 184] = None
   \<and> tokenToString demo_api jvm demo_loaded 7 = [replacement_char]
   \<and> llama_token_to_piece demo_api 1 8 4096 = (3, [228, 184, 173] @ replicate 4093 0)
   \<and> jni_lookups_succeed jvm 3 \<and> decodes_with_replacement jvm [228, 184, 173]
   \<and> utf8_decode_strict [228, 184, 173] = Some [20013]
   \<and> tokenToString demo_api jvm demo_loaded 8 = [20013]
   \<and> llama_token_to_piece demo_api 1 9 4096 = (- 1, replicate 4096 0)
   \<and> tokenToString demo_api jvm demo_loaded 9 = []
   \<and> \<not> jni_lookups_succeed no_charsets 3
   \<and> tokenToString demo_api no_charsets demo_loaded 8 = []"
proof -
  have m: "g_model demo_loaded = Some 1" by (simp add: demo_loaded_def)
  have l7: "(2 :: int) \<le> int (length ([228, 184] @ replicate 4094 (0 :: 8 word)))"
    and l8: "(3 :: int) \<le> int (length ([228, 184, 173] @ replicate 4093 (0 :: 8 word)))"
    and l9: "(- 1 :: int) \<le> int (length (replicate 4096 (0 :: 8 word)))"
    by simp_all
  have b7: "take (nat 2) ([228, 184] @ replicate 4094 (0 :: 8 word)) = [228, 184]"
    and b8: "take (nat 3) ([228, 184, 173] @ replicate 4093 (0 :: 8 word)) = [228, 184, 173]"
    by simp_all
  have u7: "map unat [228, 184 :: 8 word] = [228, 184]"
    and u8: "map unat [228, 184, 173 :: 8 word] = [228, 184, 173]"
    by simp_all
  have e: "jni_lookups_succeed jvm 2" "jni_lookups_succeed jvm 3"
    "\<not> NewByteArray jvm (- 1)" "\<not> FindClass jvm ''java/lang/Object''"
    by (simp_all add: jvm_lookups) (simp_all add: jvm_def)
  have d: "decodes_with_replacement jvm [228, 184]" "decodes_with_replacement jvm [228, 184, 173]"
    by (rule jvm_decodes)+
  have z: "(0 :: int) < 2" "(0 :: int) < 3" "(- 1 :: int) \<le> 0" by simp_all
  from tokenToString_replaces [OF m demo_pieces(1) l7, where env = jvm, unfolded b7] z(1) e(1) d(1)
  have "tokenToString demo_api jvm demo_loaded 7 = utf8_decode_replace (map unat [228, 184 :: 8 word])"
    by blast
  moreover have "utf8_decode_replace [228, 184] = [replacement_char]"
    by (simp add: utf8_step_def second_ok_def is_cont_def)
  ultimately have t7: "tokenToString demo_api jvm demo_loaded 7 = [replacement_char]"
    unfolding u7 by simp
  from tokenToString_replaces [OF m demo_pieces(2) l8, where env = jvm, unfolded b8] z(2) e(2) d(2)
  have "\<forall>cps. utf8_decode_strict (map unat [228, 184, 173 :: 8 word]) = Some cps \<longrightarrow>
          tokenToString demo_api jvm demo_loaded 8 = cps"
    by blast
  then have t8: "tokenToString demo_api jvm demo_loaded 8 = [20013]"
    unfolding u8 using demo_decoded(2) by (simp del: utf8_decode_strict.simps)
  from tokenToString_replaces [OF m demo_pieces(3) l9, where env = jvm] z(3)
  have t9: "tokenToString demo_api jvm demo_loaded 9 = []" by blast
  have n: "\<not> jni_lookups_succeed no_charsets 3"
    by (simp add: jni_lookups_succeed_def no_charsets_def)
  have t8': "tokenToString demo_api no_charsets demo_loaded 8 = []"
    using m demo_pieces(2)
    by (simp add: tokenToString_def new_string_from_utf8_bytes_def no_charsets_def jvm_def)
  show ?thesis
    using m demo_pieces demo_decoded l7 t7 t8 t9 e d n t8' by simp
qed

section \<open>Properties of the transcription controller\<close>

subsection \<open>The callback\<close>





lemma run_callbacks_None: "run_callbacks api evs None = []"
proof (induction evs)
  case Nil
  show ?case by simp
next
  case (Cons ev evs)
  then show ?case by (cases ev) (simp add: on_new_segment_cb_def)
qed


subsection \<open>The streaming call\<close>







subsection \<open>A run of the example\<close>



lemma demo_whisper_fields:
  "HAS_WHISPER demo_whisper"
  "whisper_full demo_whisper w params audio = (0, 2, [(1, 1), (2, 1)])"
  "whisper_full_n_segments demo_whisper w = int w"
  by (simp_all add: demo_whisper_def)








subsection \<open>Streaming\<close>




subsection \<open>Empty input\<close>

text \<open>
  Claim C10. With a loaded model and a sample array of length 0 (the check is
  \<^verbatim>\<open>n <= 0\<close>), both \<open>transcribePcm16\<close> and \<open>transcribePcm16Streaming\<close> return
  the empty string for every sample rate, language tag, translate flag and sink, with the
  state unchanged, no run of the engine and no call of the sink.
\<close>

theorem transcribe_empty:
  assumes "HAS_WHISPER api" and "g_wctx s = Some w" and "int (length pcm16) \<le> 0"
  shows "transcribePcm16 api s pcm16 sampleRate languageTag translateToEnglish = (Some [], s, [])
       \<and> transcribePcm16Streaming api s pcm16 sampleRate languageTag translateToEnglish callbackObj
           = (Some [], s, [], [])"
  using assms by (simp add: transcribePcm16_def transcribePcm16Streaming_def)

theorem transcribe_empty_witness:
  "HAS_WHISPER demo_whisper \<and> g_wctx demo_stt_loaded = Some 0 \<and> int (length ([] :: 16 word list)) \<le> 0
   \<and> transcribePcm16 demo_whisper demo_stt_loaded [] 44100 (Some ''en-US'') False
       = (Some [], demo_stt_loaded, [])
   \<and> transcribePcm16Streaming demo_whisper demo_stt_loaded [] 44100 (Some ''en-US'') False
        (Some (Jcallback True)) = (Some [], demo_stt_loaded, [], [])"
proof -
  have h: "HAS_WHISPER demo_whisper" "g_wctx demo_stt_loaded = Some 0"
    "int (length ([] :: 16 word list)) \<le> 0"
    by (simp_all add: demo_whisper_fields demo_stt_loaded_def)
  from transcribe_empty [OF h, of 44100 "Some ''en-US''" False "Some (Jcallback True)"] h
  show ?thesis by simp
qed

subsection \<open>Sample rate\<close>

text \<open>
  Claim C8, as amended. With a loaded model and a sample rate other than 16000,
  \<open>transcribePcm16\<close> returns failure (null) when the sample array is not empty, and
  in every case starts no run of the engine: the engine is reached only at 16000 Hz.
\<close>

theorem transcribe_wrong_rate:
  assumes "HAS_WHISPER api" and "g_wctx s = Some w" and "sampleRate \<noteq> 16000"
  shows "(pcm16 \<noteq> [] \<longrightarrow>
            transcribePcm16 api s pcm16 sampleRate languageTag translateToEnglish = (None, s, []))
       \<and> snd (snd (transcribePcm16 api s pcm16 sampleRate languageTag translateToEnglish)) = []"
  using assms by (simp add: transcribePcm16_def Let_def)

theorem transcribe_wrong_rate_witness:
  "HAS_WHISPER demo_whisper \<and> g_wctx demo_stt_loaded = Some 0 \<and> (44100 :: int) \<noteq> 16000
   \<and> demo_pcm \<noteq> []
   \<and> transcribePcm16 demo_whisper demo_stt_loaded demo_pcm 44100 (Some ''en-US'') False
       = (None, demo_stt_loaded, [])"
proof -
  have h: "HAS_WHISPER demo_whisper" "g_wctx demo_stt_loaded = Some 0" "(44100 :: int) \<noteq> 16000"
    by (simp_all add: demo_whisper_fields demo_stt_loaded_def)
  have ne: "demo_pcm \<noteq> []" by (simp add: demo_pcm_def)
  from transcribe_wrong_rate [OF h, of demo_pcm "Some ''en-US''" False] h ne
  show ?thesis by simp
qed

text \<open>
  The claim as stated (failure for every rate other than 16000) fails on an empty sample
  array: at 44100 Hz the call returns the empty string, not null.
\<close>

theorem transcribe_wrong_rate_counterexample:
  "HAS_WHISPER demo_whisper \<and> g_wctx demo_stt_loaded = Some 0 \<and> (44100 :: int) \<noteq> 16000
   \<and> transcribePcm16 demo_whisper demo_stt_loaded [] 44100 (Some ''en-US'') False
       = (Some [], demo_stt_loaded, [])"
  by (simp add: transcribePcm16_def demo_whisper_fields demo_stt_loaded_def)

end
